theory Spec2Isabelle
  imports Complex_Main
begin

section \<open>JavaScript numbers\<close>

text \<open>
  Post ids and chunk indices have the type \<^verbatim>\<open>number\<close> of JavaScript. The model does not fix
  that type: it is the type variable \<open>'n\<close>, and the operations on numbers that the code
  relies on are parameters of the definitions below: \<open>toStr x\<close> is what a template literal
  prints for the number \<open>x\<close>, \<open>pInt s\<close> is \<^verbatim>\<open>parseInt(s, 10)\<close>, and \<open>num k\<close> is the number
  that holds the integer \<open>k\<close>. Equality of \<open>'n\<close> is the equality of \<^verbatim>\<open>Set\<close> and \<^verbatim>\<open>Map\<close> keys.
  Nothing is said about these operations beyond the safe integers: a number holds every
  integer only up to \<open>2^53 - 1\<close>, prints in exponent notation from \<open>10^21\<close> on, and
  \<^verbatim>\<open>parseInt\<close> rounds a long string of digits.
\<close>

definition MAX_SAFE_INTEGER :: int where
  "MAX_SAFE_INTEGER = 9007199254740991"

text \<open>Decimal notation of a natural number, and the integer that a string of digits denotes.\<close>

definition digit_char :: "nat \<Rightarrow> char" where
  "digit_char d = char_of (48 + d)"

fun show_nat :: "nat \<Rightarrow> string" where
  "show_nat n = (if n < 10 then [digit_char n] else show_nat (n div 10) @ [digit_char (n mod 10)])"

declare show_nat.simps [simp del]

definition is_digit :: "char \<Rightarrow> bool" where
  "is_digit c = (48 \<le> (of_char c :: nat) \<and> (of_char c :: nat) \<le> 57)"

definition digit_val :: "char \<Rightarrow> int" where
  "digit_val c = int (of_char c) - 48"

definition decimal_value :: "string \<Rightarrow> int" where
  "decimal_value ds = foldl (\<lambda>acc c. 10 * acc + digit_val c) 0 ds"

text \<open>
  What JavaScript does on the safe integers that are not negative: such a number prints
  as its decimal notation, a string of digits that denotes one parses to it, and two of
  them are the same number only if they are the same integer.
\<close>

definition safe_integer_numbers :: "(int \<Rightarrow> 'n) \<Rightarrow> ('n \<Rightarrow> string) \<Rightarrow> (string \<Rightarrow> 'n) \<Rightarrow> bool" where
  "safe_integer_numbers num toStr pInt =
     ((\<forall>k. 0 \<le> k \<and> k \<le> MAX_SAFE_INTEGER \<longrightarrow> toStr (num k) = show_nat (nat k))
      \<and> (\<forall>ds. ds \<noteq> [] \<and> list_all is_digit ds \<and> decimal_value ds \<le> MAX_SAFE_INTEGER
             \<longrightarrow> pInt ds = num (decimal_value ds))
      \<and> (\<forall>j k. 0 \<le> j \<and> j \<le> MAX_SAFE_INTEGER \<and> 0 \<le> k \<and> k \<le> MAX_SAFE_INTEGER
             \<and> num j = num k \<longrightarrow> j = k))"

text \<open>
  One instance of the parameters, for running the definitions on examples with small
  integers: the integers themselves as numbers, decimal notation with a minus sign for
  printing, and the value of the digits for parsing.
\<close>

definition int_toString :: "int \<Rightarrow> string" where
  "int_toString i = (if i < 0 then CHR ''-'' # show_nat (nat (- i)) else show_nat (nat i))"

section \<open>Vector identifiers (pinecone.ts) and their parsing (indexer.ts)\<close>

text \<open>\<^verbatim>\<open>createVectorId(postId, chunkIndex)\<close>: \<^verbatim>\<open>`post-${postId}-chunk-${chunkIndex}`\<close>.\<close>

definition createVectorId :: "('n \<Rightarrow> string) \<Rightarrow> 'n \<Rightarrow> 'n \<Rightarrow> string" where
  "createVectorId toStr postId chunkIndex =
     ''post-'' @ toStr postId @ ''-chunk-'' @ toStr chunkIndex"

text \<open>
  \<^verbatim>\<open>createVector\<close> wraps the id with the embedding and the metadata, adding
  \<^verbatim>\<open>chunk_index\<close> to the latter.
\<close>

record ('n, 'e, 'm) pineconeVector =
  vec_id :: string
  vec_values :: 'e
  vec_metadata :: 'm
  vec_chunk_index :: 'n

definition createVector ::
  "('n \<Rightarrow> string) \<Rightarrow> 'n \<Rightarrow> 'n \<Rightarrow> 'e \<Rightarrow> 'm \<Rightarrow> ('n, 'e, 'm) pineconeVector" where
  "createVector toStr postId chunkIndex embedding metadata =
     \<lparr>vec_id = createVectorId toStr postId chunkIndex, vec_values = embedding,
      vec_metadata = metadata, vec_chunk_index = chunkIndex\<rparr>"

text \<open>
  The pattern \<^verbatim>\<open>/^post-(\d+)-chunk-\d+$/\<close> of \<^verbatim>\<open>clean()\<close>. \<^verbatim>\<open>\d\<close> is an ASCII digit,
  \<^verbatim>\<open>\d+\<close> is greedy, and since the character after the first group must be \<^verbatim>\<open>-\<close>,
  the group is the longest run of digits. The result is capture group 1.
\<close>

fun strip_prefix :: "string \<Rightarrow> string \<Rightarrow> string option" where
  "strip_prefix [] s = Some s"
| "strip_prefix (p # ps) [] = None"
| "strip_prefix (p # ps) (c # cs) = (if p = c then strip_prefix ps cs else None)"

definition match_vectorIdPattern :: "string \<Rightarrow> string option" where
  "match_vectorIdPattern s =
     (case strip_prefix ''post-'' s of
        None \<Rightarrow> None
      | Some r \<Rightarrow>
          (let ds = takeWhile is_digit r; rest = dropWhile is_digit r in
           if ds = [] then None
           else (case strip_prefix ''-chunk-'' rest of
                   None \<Rightarrow> None
                 | Some r2 \<Rightarrow> if r2 \<noteq> [] \<and> list_all is_digit r2 then Some ds else None)))"

text \<open>
  The post id that \<^verbatim>\<open>clean()\<close> reads off a vector id, when the id matches:
  \<^verbatim>\<open>parseInt(match[1], 10)\<close>.
\<close>

definition vectorPostId :: "(string \<Rightarrow> 'n) \<Rightarrow> string \<Rightarrow> 'n option" where
  "vectorPostId pInt vectorId = map_option pInt (match_vectorIdPattern vectorId)"

section \<open>Errors\<close>

text \<open>
  A thrown value is taken to be an \<^verbatim>\<open>Error\<close> object: its message, and the \<^verbatim>\<open>status\<close> and
  \<^verbatim>\<open>code\<close> properties that HTTP clients and the network layer add, absent on a plain
  \<^verbatim>\<open>Error\<close>. A computation that may throw returns \<open>js_error + 'a\<close>, with \<open>Inl\<close> for
  the throw.
\<close>

record js_error =
  err_message :: string
  err_status :: "int option"
  err_code :: "string option"

definition plain_error :: "string \<Rightarrow> js_error" where
  "plain_error msg = \<lparr>err_message = msg, err_status = None, err_code = None\<rparr>"

section \<open>Reconciliation: clean() (indexer.ts) and deleteByVectorIds (pinecone.ts)\<close>

text \<open>
  A JavaScript \<^verbatim>\<open>Set<number>\<close> iterates in insertion order and ignores a value it already
  holds: it is modelled by a list. The \<^verbatim>\<open>Map<number, string[]>\<close> is a HOL map.
\<close>

definition set_add :: "'n list \<Rightarrow> 'n \<Rightarrow> 'n list" where
  "set_add s x = (if x \<in> set s then s else s @ [x])"

text \<open>
  Step 4 of \<^verbatim>\<open>clean()\<close>, one iteration of \<^verbatim>\<open>for (const vectorId of allVectorIds)\<close>:
  an id that does not match the pattern changes nothing.
\<close>

definition collect_step ::
  "(string \<Rightarrow> 'n) \<Rightarrow> 'n list \<times> ('n \<rightharpoonup> string list) \<Rightarrow> string
     \<Rightarrow> 'n list \<times> ('n \<rightharpoonup> string list)" where
  "collect_step pInt acc vectorId =
     (case match_vectorIdPattern vectorId of
        None \<Rightarrow> acc
      | Some g \<Rightarrow>
          (let postId = pInt g;
               pineconePostIds = set_add (fst acc) postId;
               m = (if snd acc postId = None then (snd acc)(postId \<mapsto> []) else snd acc)
           in (pineconePostIds,
               (case m postId of
                  None \<Rightarrow> m
                | Some vs \<Rightarrow> m(postId \<mapsto> vs @ [vectorId])))))"

definition collect_vectors ::
  "(string \<Rightarrow> 'n) \<Rightarrow> string list \<Rightarrow> 'n list \<times> ('n \<rightharpoonup> string list)" where
  "collect_vectors pInt allVectorIds = foldl (collect_step pInt) ([], Map.empty) allVectorIds"

text \<open>
  Step 5, one iteration of \<^verbatim>\<open>for (const postId of pineconePostIds)\<close>; the accumulator is
  \<^verbatim>\<open>(deletedPostIds, vectorIdsToDelete)\<close>.
\<close>

definition orphan_step ::
  "'n list \<Rightarrow> ('n \<rightharpoonup> string list) \<Rightarrow> 'n list \<times> string list \<Rightarrow> 'n \<Rightarrow> 'n list \<times> string list" where
  "orphan_step wpPostIds postIdToVectorIds acc postId =
     (if postId \<in> set wpPostIds then acc
      else (fst acc @ [postId],
            snd acc @ (case postIdToVectorIds postId of None \<Rightarrow> [] | Some vs \<Rightarrow> vs)))"

definition find_deleted ::
  "(string \<Rightarrow> 'n) \<Rightarrow> 'n list \<Rightarrow> string list \<Rightarrow> 'n list \<times> string list" where
  "find_deleted pInt wpPostIds allVectorIds =
     (let c = collect_vectors pInt allVectorIds
      in foldl (orphan_step wpPostIds (snd c)) ([], []) (fst c))"

definition vectorIdsToDelete :: "(string \<Rightarrow> 'n) \<Rightarrow> 'n list \<Rightarrow> string list \<Rightarrow> string list" where
  "vectorIdsToDelete pInt wpPostIds allVectorIds = snd (find_deleted pInt wpPostIds allVectorIds)"

text \<open>
  The vector store holds entries keyed by vector id; \<^verbatim>\<open>deleteMany(batch)\<close> removes the
  entries whose id is in the batch.
\<close>

type_synonym 'v store = "(string \<times> 'v) list"

definition deleteMany :: "'v store \<Rightarrow> string list \<Rightarrow> 'v store" where
  "deleteMany st batch = filter (\<lambda>kv. fst kv \<notin> set batch) st"

text \<open>
  \<^verbatim>\<open>for (i = 0; i < n; i += batchSize) batches.push(ids.slice(i, i + batchSize))\<close>.
\<close>

fun slice_batches :: "nat \<Rightarrow> 'a list \<Rightarrow> 'a list list" where
  "slice_batches batchSize xs =
     (if batchSize = 0 \<or> xs = [] then []
      else take batchSize xs # slice_batches batchSize (drop batchSize xs))"

declare slice_batches.simps [simp del]

text \<open>
  The loop over the batches in \<^verbatim>\<open>deleteByVectorIds\<close>. \<open>deleteMany_call i\<close> is what the
  \<open>i\<close>-th call of \<^verbatim>\<open>deleteMany\<close> of the run does, counted from 0: it succeeds, or it throws,
  and a call that throws is taken to have removed nothing. A throw ends the loop and
  leaves the batches before it deleted. The result is the error thrown, if any, and the
  store.
\<close>

fun delete_batches ::
  "(nat \<Rightarrow> js_error + unit) \<Rightarrow> nat \<Rightarrow> 'v store \<Rightarrow> string list list \<Rightarrow> js_error option \<times> 'v store" where
  "delete_batches deleteMany_call i st [] = (None, st)"
| "delete_batches deleteMany_call i st (batch # batches) =
     (case deleteMany_call i of
        Inl error \<Rightarrow> (Some error, st)
      | Inr u \<Rightarrow> delete_batches deleteMany_call (i + 1) (deleteMany st batch) batches)"

text \<open>
  \<^verbatim>\<open>deleteByVectorIds\<close> returns at once on an empty list and otherwise cuts the ids into
  batches of 1000.
\<close>

definition deleteByVectorIds ::
  "(nat \<Rightarrow> js_error + unit) \<Rightarrow> 'v store \<Rightarrow> string list \<Rightarrow> js_error option \<times> 'v store" where
  "deleteByVectorIds deleteMany_call st vectorIds =
     (if length vectorIds = 0 then (None, st)
      else delete_batches deleteMany_call 0 st (slice_batches 1000 vectorIds))"

text \<open>
  What the remote calls of one run of \<^verbatim>\<open>clean()\<close> do, in the order in which the run
  reaches them: the settings fetch (with the setting \<^verbatim>\<open>clean_deleted\<close> when it succeeds),
  the initialisation of the store client, \<^verbatim>\<open>getStats()\<close>, \<^verbatim>\<open>listVectorIdsForDomain()\<close>
  (with the ids it returns), and the calls of \<^verbatim>\<open>deleteMany\<close>. \<^verbatim>\<open>fetchAllPosts()\<close> catches
  its own errors; the ids of the documents it yields are \<open>wpPostIds\<close>.
\<close>

record clean_calls =
  cl_fetchSettings :: "js_error + bool"
  cl_initialize :: "js_error + unit"
  cl_getStats :: "js_error + unit"
  cl_listVectorIds :: "js_error + string list"
  cl_deleteMany :: "nat \<Rightarrow> js_error + unit"

text \<open>
  \<^verbatim>\<open>clean()\<close>: the error it throws, if any (its \<^verbatim>\<open>catch\<close> block throws the error again),
  and the store after the run.
\<close>

definition clean ::
  "(string \<Rightarrow> 'n) \<Rightarrow> clean_calls \<Rightarrow> 'n list \<Rightarrow> 'v store \<Rightarrow> js_error option \<times> 'v store" where
  "clean pInt calls wpPostIds st =
     (case cl_fetchSettings calls of
        Inl error \<Rightarrow> (Some error, st)
      | Inr clean_deleted \<Rightarrow>
          if \<not> clean_deleted then (None, st)
          else
     (case cl_initialize calls of
        Inl error \<Rightarrow> (Some error, st)
      | Inr u \<Rightarrow>
     (case cl_getStats calls of
        Inl error \<Rightarrow> (Some error, st)
      | Inr stats \<Rightarrow>
     (case cl_listVectorIds calls of
        Inl error \<Rightarrow> (Some error, st)
      | Inr allVectorIds \<Rightarrow>
          (let del = vectorIdsToDelete pInt wpPostIds allVectorIds
           in if length del > 0 then deleteByVectorIds (cl_deleteMany calls) st del
              else (None, st))))))"

section \<open>The chunker (chunking.ts)\<close>

text \<open>
  Strings are lists of characters. \<^verbatim>\<open>\s\<close> and \<^verbatim>\<open>trim()\<close> recognise the same white space;
  among the characters below 256 these are tab, line feed, vertical tab, form feed,
  carriage return, space and the no-break space.
\<close>

definition is_space :: "char \<Rightarrow> bool" where
  "is_space c = (let n = (of_char c :: nat) in (9 \<le> n \<and> n \<le> 13) \<or> n = 32 \<or> n = 160)"

text \<open>\<^verbatim>\<open>content.replace(/\s+/g, ' ')\<close>: every maximal run of white space becomes one space.\<close>

function collapse_ws :: "string \<Rightarrow> string" where
  "collapse_ws [] = []"
| "collapse_ws (c # cs) =
     (if is_space c then CHR '' '' # collapse_ws (dropWhile is_space cs)
      else c # collapse_ws cs)"
  by pat_completeness auto
termination
  by (relation "measure length") (auto simp: length_dropWhile_le less_Suc_eq_le)

definition js_trim :: "string \<Rightarrow> string" where
  "js_trim s = rev (dropWhile is_space (rev (dropWhile is_space s)))"

text \<open>
  \<^verbatim>\<open>s.slice(a, b)\<close>: a negative index counts from the end, both indices are clamped to
  the string, and the result is empty when the start is not before the end.
\<close>

definition js_slice :: "string \<Rightarrow> int \<Rightarrow> int \<Rightarrow> string" where
  "js_slice s a b =
     (let n = int (length s);
          from = (if a < 0 then max (n + a) 0 else min a n);
          to = (if b < 0 then max (n + b) 0 else min b n)
      in take (nat (to - from)) (drop (nat from) s))"

record settings =
  chunk_size :: int
  chunk_overlap :: int

record chunk =
  chunk_text :: string
  chunk_idx :: int

definition is_sentence_end :: "char \<Rightarrow> bool" where
  "is_sentence_end c = (c = CHR ''.'' \<or> c = CHR ''!'' \<or> c = CHR ''?'')"

text \<open>
  The two \<^verbatim>\<open>exec\<close> loops of \<^verbatim>\<open>findBreakPoint\<close>. \<open>i\<close> is the index in the search region
  of the first character still to scan; a match of \<^verbatim>\<open>/[.!?]\s/g\<close> consumes two characters,
  one of \<^verbatim>\<open>/\s/g\<close> consumes one.
\<close>

fun sentence_scan :: "int \<Rightarrow> string \<Rightarrow> int \<Rightarrow> int \<Rightarrow> int" where
  "sentence_scan searchStart (c # d # r) i lastSentenceEnd =
     (if is_sentence_end c \<and> is_space d
      then sentence_scan searchStart r (i + 2) (searchStart + i + 1)
      else sentence_scan searchStart (d # r) (i + 1) lastSentenceEnd)"
| "sentence_scan searchStart r i lastSentenceEnd = lastSentenceEnd"

fun word_scan :: "int \<Rightarrow> string \<Rightarrow> int \<Rightarrow> int \<Rightarrow> int" where
  "word_scan searchStart (c # r) i lastWordBoundary =
     word_scan searchStart r (i + 1) (if is_space c then searchStart + i else lastWordBoundary)"
| "word_scan searchStart [] i lastWordBoundary = lastWordBoundary"

text \<open>
  \<^verbatim>\<open>Math.floor(chunk_size * 0.2)\<close> is \<open>chunk_size div 5\<close> for an integer chunk size.
\<close>

definition findBreakPoint :: "settings \<Rightarrow> string \<Rightarrow> int \<Rightarrow> int \<Rightarrow> int" where
  "findBreakPoint st content start idealEnd =
     (let searchStart = idealEnd - chunk_size st div 5;
          searchRegion = js_slice content searchStart idealEnd;
          lastSentenceEnd = sentence_scan searchStart searchRegion 0 (- 1)
      in if lastSentenceEnd > start then lastSentenceEnd
         else (let lastWordBoundary = word_scan searchStart searchRegion 0 (- 1)
               in if lastWordBoundary > start then lastWordBoundary else idealEnd))"

text \<open>
  The \<^verbatim>\<open>while (position < content.length)\<close> loop of \<^verbatim>\<open>chunkContent\<close>. The loop can run
  forever, so it takes fuel, one unit per iteration, and \<open>None\<close> means that the fuel ran
  out. \<open>spans\<close> is not in the source: it records \<open>(position, endPosition)\<close> of every chunk
  pushed, the span of the source the chunk was cut from. The guard of the source is
  \<^verbatim>\<open>position <= chunks[chunks.length - 1]?.text.length\<close>: it compares the new position with
  the length of the text of the last chunk pushed, and is false when no chunk was pushed.
\<close>

record loop_state =
  position :: int
  chunkIndex :: int
  chunks :: "chunk list"
  spans :: "(int \<times> int) list"

fun chunk_loop :: "nat \<Rightarrow> settings \<Rightarrow> string \<Rightarrow> loop_state \<Rightarrow> loop_state option" where
  "chunk_loop 0 st content s = None"
| "chunk_loop (Suc fuel) st content s =
     (if position s < int (length content) then
        (let endPosition =
               (if position s + chunk_size st < int (length content)
                then findBreakPoint st content (position s) (position s + chunk_size st)
                else int (length content));
             chunkText = js_trim (js_slice content (position s) endPosition);
             s1 = (if length chunkText > 0
                   then s\<lparr>chunks := chunks s @ [\<lparr>chunk_text = chunkText, chunk_idx = chunkIndex s\<rparr>],
                          chunkIndex := chunkIndex s + 1,
                          spans := spans s @ [(position s, endPosition)]\<rparr>
                   else s)
         in if endPosition < int (length content) then
              (let p = endPosition - chunk_overlap st;
                   back = (case chunks s1 of [] \<Rightarrow> False
                           | _ \<Rightarrow> p \<le> int (length (chunk_text (last (chunks s1)))))
               in chunk_loop fuel st content (s1\<lparr>position := (if back then endPosition else p)\<rparr>))
            else Some s1)
      else Some s)"

definition chunk_run :: "nat \<Rightarrow> settings \<Rightarrow> string \<Rightarrow> loop_state option" where
  "chunk_run fuel st content =
     chunk_loop fuel st content \<lparr>position = 0, chunkIndex = 0, chunks = [], spans = []\<rparr>"

definition normalize :: "string \<Rightarrow> string" where
  "normalize content = js_trim (collapse_ws content)"

definition chunkContent :: "nat \<Rightarrow> settings \<Rightarrow> string \<Rightarrow> chunk list option" where
  "chunkContent fuel st content0 =
     (let content = normalize content0
      in if int (length content) \<le> chunk_size st then Some [\<lparr>chunk_text = content, chunk_idx = 0\<rparr>]
         else map_option chunks (chunk_run fuel st content))"

text \<open>The spans of the chunks that \<open>chunkContent\<close> returns, in the same order.\<close>

definition chunkSpans :: "nat \<Rightarrow> settings \<Rightarrow> string \<Rightarrow> (int \<times> int) list option" where
  "chunkSpans fuel st content0 =
     (let content = normalize content0
      in if int (length content) \<le> chunk_size st then Some [(0, int (length content))]
         else map_option spans (chunk_run fuel st content))"

text \<open>
  Two inputs for chunk size 100 and overlap 90 (settings that validation accepts): 201
  characters with one space, at index 180 in the first and at index 181 in the second.
\<close>

definition text_space_at_180 :: string where
  "text_space_at_180 = replicate 180 CHR ''a'' @ CHR '' '' # replicate 20 CHR ''a''"

definition text_space_at_181 :: string where
  "text_space_at_181 = replicate 181 CHR ''a'' @ CHR '' '' # replicate 19 CHR ''a''"

section \<open>The rate limiter (utils.ts)\<close>

text \<open>
  Token counts and rates are JavaScript numbers, modelled by reals; \<^verbatim>\<open>Date.now()\<close> is an
  integer number of milliseconds. Every reading of the clock is an input of the model.
  \<^verbatim>\<open>burstSize || requestsPerSecond\<close> takes the rate when the burst size is absent or zero.
\<close>

record rateLimiter =
  tokens :: real
  lastRefill :: int
  capacity :: real
  refillRate :: real

definition RateLimiter_new :: "real \<Rightarrow> real option \<Rightarrow> int \<Rightarrow> rateLimiter" where
  "RateLimiter_new requestsPerSecond burstSize now =
     (let cap = (case burstSize of
                   None \<Rightarrow> requestsPerSecond
                 | Some b \<Rightarrow> if b = 0 then requestsPerSecond else b)
      in \<lparr>tokens = cap, lastRefill = now, capacity = cap, refillRate = requestsPerSecond\<rparr>)"

definition refill :: "rateLimiter \<Rightarrow> int \<Rightarrow> rateLimiter" where
  "refill rl now =
     (let timeSinceLastRefill = real_of_int (now - lastRefill rl) / 1000;
          tokensToAdd = timeSinceLastRefill * refillRate rl
      in rl\<lparr>tokens := min (capacity rl) (tokens rl + tokensToAdd), lastRefill := now\<rparr>)"

text \<open>
  One pass through the body of \<^verbatim>\<open>while (true)\<close> in \<^verbatim>\<open>acquire\<close>, up to the \<^verbatim>\<open>await\<close>:
  the limiter afterwards, and whether \<^verbatim>\<open>acquire\<close> returned. Nothing else runs between
  the refill and the deduction.
\<close>

definition acquire_pass :: "rateLimiter \<Rightarrow> real \<Rightarrow> int \<Rightarrow> rateLimiter \<times> bool" where
  "acquire_pass rl tokensNeeded now =
     (let r = refill rl now
      in if tokens r \<ge> tokensNeeded then (r\<lparr>tokens := tokens r - tokensNeeded\<rparr>, True)
         else (r, False))"

text \<open>
  \<^verbatim>\<open>acquire(tokensNeeded)\<close> reads the clock once per pass; the list holds the readings.
  The loop ends at the first pass that finds enough tokens; \<open>False\<close> means that it is
  still waiting after the last reading given.
\<close>

fun acquire :: "rateLimiter \<Rightarrow> real \<Rightarrow> int list \<Rightarrow> rateLimiter \<times> bool" where
  "acquire rl tokensNeeded [] = (rl, False)"
| "acquire rl tokensNeeded (now # later) =
     (let (r, returned) = acquire_pass rl tokensNeeded now
      in if returned then (r, True) else acquire r tokensNeeded later)"

text \<open>
  The states the limiter goes through during \<^verbatim>\<open>acquire\<close>: after each refill, and after
  the deduction.
\<close>

fun acquire_states :: "rateLimiter \<Rightarrow> real \<Rightarrow> int list \<Rightarrow> rateLimiter list" where
  "acquire_states rl tokensNeeded [] = []"
| "acquire_states rl tokensNeeded (now # later) =
     (let (r, returned) = acquire_pass rl tokensNeeded now
      in if returned then [refill rl now, r]
         else refill rl now # acquire_states r tokensNeeded later)"

text \<open>
  A sequence of calls \<^verbatim>\<open>acquire(n)\<close>, each with the clock readings of its passes:
  all the states the limiter goes through, in order.
\<close>

fun run_acquires :: "rateLimiter \<Rightarrow> (real \<times> int list) list \<Rightarrow> rateLimiter list" where
  "run_acquires rl [] = []"
| "run_acquires rl (c # calls) =
     acquire_states rl (fst c) (snd c) @ run_acquires (fst (acquire rl (fst c) (snd c))) calls"

text \<open>
  Calls of \<^verbatim>\<open>acquire\<close> that overlap interleave between passes, at the \<^verbatim>\<open>await\<close> of the
  delay. Any such run is a sequence of passes, each with its own \<open>tokensNeeded\<close> and clock
  reading: the states the limiter goes through.
\<close>

fun pass_states :: "rateLimiter \<Rightarrow> (real \<times> int) list \<Rightarrow> rateLimiter list" where
  "pass_states rl [] = []"
| "pass_states rl (p # ps) =
     refill rl (snd p) # fst (acquire_pass rl (fst p) (snd p))
       # pass_states (fst (acquire_pass rl (fst p) (snd p))) ps"

definition tokens_in_range :: "rateLimiter \<Rightarrow> bool" where
  "tokens_in_range rl = (0 \<le> tokens rl \<and> tokens rl \<le> capacity rl)"

definition rl_ok :: "rateLimiter \<Rightarrow> bool" where
  "rl_ok rl = (tokens_in_range rl \<and> 0 \<le> refillRate rl)"

section \<open>The circuit breaker (utils.ts)\<close>















section \<open>Retry with exponential backoff (utils.ts)\<close>

text \<open>
  \<^verbatim>\<open>isRetryableError\<close>: \<^verbatim>\<open>if (error.status)\<close> holds for a status that is present and not
  zero, and then the status alone decides; otherwise the error code decides.
\<close>

definition isRetryableError :: "js_error \<Rightarrow> bool" where
  "isRetryableError error =
     (if (case err_status error of None \<Rightarrow> False | Some s \<Rightarrow> s \<noteq> 0)
      then (case err_status error of None \<Rightarrow> False | Some s \<Rightarrow> s = 429 \<or> s \<ge> 500)
      else (err_code error = Some ''ECONNRESET'' \<or> err_code error = Some ''ETIMEDOUT''
            \<or> err_code error = Some ''ENOTFOUND''))"

text \<open>
  The delay before the next attempt, from the index of the attempt that failed and the
  value of \<^verbatim>\<open>Math.random()\<close>. Delays are JavaScript numbers, modelled by reals; the
  constants 0.25 and 0.5 of the source are written \<open>1/4\<close> and \<open>1/2\<close>.
\<close>

definition backoff_delay :: "real \<Rightarrow> real \<Rightarrow> nat \<Rightarrow> real" where
  "backoff_delay baseDelay maxDelay attempt = min (baseDelay * 2 ^ attempt) maxDelay"

definition waitTime :: "real \<Rightarrow> real \<Rightarrow> nat \<Rightarrow> real \<Rightarrow> int" where
  "waitTime baseDelay maxDelay attempt random =
     (let delay = backoff_delay baseDelay maxDelay attempt;
          jitter = delay * (1/4) * (random - 1/2)
      in \<lfloor>delay + jitter\<rfloor>)"

text \<open>
  The loop \<^verbatim>\<open>for (attempt = 0; attempt <= maxRetries; attempt++)\<close>. \<open>fn k\<close> is what the
  \<open>k\<close>-th invocation of the operation does (counting from 0), \<open>random k\<close> the random number
  drawn after attempt \<open>k\<close> failed, \<open>left\<close> is \<open>maxRetries - attempt\<close>. The result is what
  \<^verbatim>\<open>retryWithBackoff\<close> returns or throws, the number of invocations of the operation, and
  the sleeps in milliseconds, in order. On the last attempt the loop breaks and throws
  \<^verbatim>\<open>lastError\<close>, the error just caught.
\<close>

fun retry_loop ::
  "(nat \<Rightarrow> js_error + 'a) \<Rightarrow> (nat \<Rightarrow> real) \<Rightarrow> real \<Rightarrow> real \<Rightarrow> nat \<Rightarrow> nat \<Rightarrow> int list
     \<Rightarrow> (js_error + 'a) \<times> nat \<times> int list" where
  "retry_loop fn random baseDelay maxDelay 0 attempt sleeps = (fn attempt, attempt + 1, sleeps)"
| "retry_loop fn random baseDelay maxDelay (Suc left) attempt sleeps =
     (case fn attempt of
        Inr v \<Rightarrow> (Inr v, attempt + 1, sleeps)
      | Inl error \<Rightarrow>
          if \<not> isRetryableError error then (Inl error, attempt + 1, sleeps)
          else retry_loop fn random baseDelay maxDelay left (attempt + 1)
                 (sleeps @ [waitTime baseDelay maxDelay attempt (random attempt)]))"

definition retryWithBackoff ::
  "(nat \<Rightarrow> js_error + 'a) \<Rightarrow> (nat \<Rightarrow> real) \<Rightarrow> nat \<Rightarrow> real \<Rightarrow> real
     \<Rightarrow> (js_error + 'a) \<times> nat \<times> int list" where
  "retryWithBackoff fn random maxRetries baseDelay maxDelay =
     retry_loop fn random baseDelay maxDelay maxRetries 0 []"

definition retryable_failure :: "js_error + 'a \<Rightarrow> bool" where
  "retryable_failure r = (case r of Inl error \<Rightarrow> isRetryableError error | Inr v \<Rightarrow> False)"

section \<open>Bounded concurrency (utils.ts)\<close>

text \<open>
  \<^verbatim>\<open>processWithConcurrency\<close> is asynchronous. The model runs it on a virtual clock, in
  milliseconds. What the processor does on an item is given by a task: how long after its
  start its promise settles, and how. The promise of item \<open>i\<close>, started at time \<open>T\<close>,
  settles at \<open>T + duration\<close>, and its \<^verbatim>\<open>then\<close>/\<^verbatim>\<open>catch\<close> handler stores \<^verbatim>\<open>results[i]\<close> at that
  time. The synchronous parts of the function take no time.
  \<^verbatim>\<open>await Promise.race(executing)\<close> resumes at the earliest settlement among the promises
  in \<^verbatim>\<open>executing\<close>, at once if one has settled already; \<^verbatim>\<open>await Promise.all(executing)\<close>
  resumes at the latest. \<^verbatim>\<open>executing\<close> holds the indices of the items whose promises it
  contains, \<open>finish\<close> the settlement times of the items started so far.
\<close>

record 'r task =
  duration :: nat
  outcome :: "js_error + 'r"

datatype 'r settled = Fulfilled 'r | Rejected js_error

definition settle :: "js_error + 'r \<Rightarrow> 'r settled" where
  "settle r = (case r of Inr v \<Rightarrow> Fulfilled v | Inl reason \<Rightarrow> Rejected reason)"

text \<open>\<^verbatim>\<open>results[itemIdx] !== undefined\<close> at time \<open>T\<close>.\<close>

definition result_filled :: "nat list \<Rightarrow> nat \<Rightarrow> nat \<Rightarrow> bool" where
  "result_filled finish T itemIdx = (itemIdx < length finish \<and> finish ! itemIdx \<le> T)"

definition race_time :: "nat list \<Rightarrow> nat list \<Rightarrow> nat \<Rightarrow> nat" where
  "race_time finish executing T =
     (case map (\<lambda>j. finish ! j) executing of
        [] \<Rightarrow> T
      | f # fs \<Rightarrow> max T (fold min fs f))"

definition all_time :: "nat list \<Rightarrow> nat list \<Rightarrow> nat \<Rightarrow> nat" where
  "all_time finish executing T = fold max (map (\<lambda>j. finish ! j) executing) T"

text \<open>
  One iteration of \<^verbatim>\<open>for (let i = 0; i < items.length; i++)\<close>. The test inside
  \<^verbatim>\<open>executing.forEach\<close> does not depend on the promise: \<^verbatim>\<open>items.findIndex\<close> looks for
  an item index between \<open>i - executing.length + 1\<close> and \<open>i\<close> whose result is stored, so
  \<^verbatim>\<open>completedIndices\<close> is not empty exactly when such an index exists, and then
  \<^verbatim>\<open>executing.splice(0, 1)\<close> removes the first promise.
\<close>

record pwc_state =
  clock :: nat
  executing :: "nat list"
  finish :: "nat list"

definition pwc_step :: "nat \<Rightarrow> int \<Rightarrow> pwc_state \<Rightarrow> nat \<times> 'r task \<Rightarrow> pwc_state" where
  "pwc_step n concurrency s it =
     (let i = fst it;
          finish1 = finish s @ [clock s + duration (snd it)];
          executing1 = executing s @ [i]
      in if int (length executing1) \<ge> concurrency then
           (let T = race_time finish1 executing1 (clock s);
                found = list_ex (\<lambda>itemIdx. int itemIdx \<ge> int i - int (length executing1) + 1
                                   \<and> itemIdx \<le> i \<and> result_filled finish1 T itemIdx) [0 ..< n]
            in \<lparr>clock = T,
                executing = (if found then tl executing1 else executing1),
                finish = finish1\<rparr>)
         else \<lparr>clock = clock s, executing = executing1, finish = finish1\<rparr>)"

text \<open>
  The array that \<^verbatim>\<open>processWithConcurrency\<close> resolves with, as it is at that time: slot \<open>i\<close>
  is \<open>None\<close> when \<^verbatim>\<open>results[i]\<close> has not been stored yet (a hole of \<^verbatim>\<open>new Array(n)\<close>).
\<close>

definition processWithConcurrency :: "'r task list \<Rightarrow> int \<Rightarrow> 'r settled option list" where
  "processWithConcurrency items concurrency =
     (let s = foldl (pwc_step (length items) concurrency)
                \<lparr>clock = 0, executing = [], finish = []\<rparr> (zip [0 ..< length items] items);
          T = all_time (finish s) (executing s) (clock s)
      in map (\<lambda>(t, f). if f \<le> T then Some (settle (outcome t)) else None)
           (zip items (finish s)))"

section \<open>Settings fetch (settings.ts) and the orchestrator's index() (indexer.ts)\<close>



record indexingProgress =
  totalPosts :: nat
  processedPosts :: nat
  totalChunks :: nat
  processedChunks :: nat
  progress_errors :: nat

record 'n error_entry =
  entry_post_id :: "'n option"
  entry_message :: string
  entry_error :: js_error

record 'n indexingResult =
  success :: bool
  stats :: indexingProgress
  result_errors :: "'n error_entry list"








section \<open>Facts about decimal printing\<close>

lemma is_digit_digit_char: "d < 10 \<Longrightarrow> is_digit (digit_char d)"
  by (simp add: is_digit_def digit_char_def)

lemma digit_val_digit_char: "d < 10 \<Longrightarrow> digit_val (digit_char d) = int d"
  by (simp add: digit_val_def digit_char_def)

lemma show_nat_nonempty: "show_nat n \<noteq> []"
  by (subst show_nat.simps) simp

lemma show_nat_digits: "list_all is_digit (show_nat n)"
proof (induction n rule: show_nat.induct)
  case (1 n)
  show ?case
  proof (cases "n < 10")
    case True
    then show ?thesis by (subst show_nat.simps) (simp add: is_digit_digit_char)
  next
    case False
    with 1 show ?thesis by (subst show_nat.simps) (simp add: is_digit_digit_char)
  qed
qed

lemma decimal_value_snoc: "decimal_value (ds @ [c]) = 10 * decimal_value ds + digit_val c"
  by (simp add: decimal_value_def)

lemma decimal_value_show_nat: "decimal_value (show_nat n) = int n"
proof (induction n rule: show_nat.induct)
  case (1 n)
  show ?case
  proof (cases "n < 10")
    case True
    then show ?thesis
      by (subst show_nat.simps) (simp add: decimal_value_def digit_val_digit_char)
  next
    case False
    with 1 have "decimal_value (show_nat (n div 10)) = int (n div 10)" by simp
    moreover have "10 * int (n div 10) + int (n mod 10) = int n" by presburger
    ultimately show ?thesis
      using False by (subst show_nat.simps) (simp add: decimal_value_snoc digit_val_digit_char)
  qed
qed

lemma decimal_value_nonneg: "list_all is_digit ds \<Longrightarrow> 0 \<le> decimal_value ds"
proof (induction ds rule: rev_induct)
  case Nil
  show ?case by (simp add: decimal_value_def)
next
  case (snoc c ds)
  then have "0 \<le> decimal_value ds" "0 \<le> digit_val c"
    by (simp_all add: is_digit_def digit_val_def)
  then show ?case by (simp add: decimal_value_snoc)
qed

lemma not_digit_minus: "\<not> is_digit CHR ''-''"
  by (simp add: is_digit_def)

lemma takeWhile_digits_stop:
  "list_all is_digit ds \<Longrightarrow> \<not> is_digit c \<Longrightarrow> takeWhile is_digit (ds @ c # r) = ds"
  by (induction ds) simp_all

lemma dropWhile_digits_stop:
  "list_all is_digit ds \<Longrightarrow> \<not> is_digit c \<Longrightarrow> dropWhile is_digit (ds @ c # r) = c # r"
  by (induction ds) simp_all

lemma match_createVectorId_nat:
  "match_vectorIdPattern (''post-'' @ show_nat a @ ''-chunk-'' @ show_nat b) = Some (show_nat a)"
proof -
  have tw: "takeWhile is_digit (show_nat a @ CHR ''-'' # (''chunk-'' @ show_nat b)) = show_nat a"
    by (rule takeWhile_digits_stop [OF show_nat_digits not_digit_minus])
  have dw: "dropWhile is_digit (show_nat a @ CHR ''-'' # (''chunk-'' @ show_nat b))
              = CHR ''-'' # (''chunk-'' @ show_nat b)"
    by (rule dropWhile_digits_stop [OF show_nat_digits not_digit_minus])
  show ?thesis
    using tw dw by (simp add: match_vectorIdPattern_def show_nat_nonempty show_nat_digits)
qed

section \<open>Facts about the reconciliation loops\<close>

lemma collect_step_fst:
  "set (fst (collect_step pInt acc v)) =
     set (fst acc) \<union> (case vectorPostId pInt v of None \<Rightarrow> {} | Some p \<Rightarrow> {p})"
  by (auto simp: collect_step_def vectorPostId_def set_add_def Let_def split: option.splits)

lemma collect_step_snd:
  "snd (collect_step pInt acc v) p =
     (if vectorPostId pInt v = Some p
      then Some ((case snd acc p of None \<Rightarrow> [] | Some vs \<Rightarrow> vs) @ [v])
      else snd acc p)"
  by (auto simp: collect_step_def vectorPostId_def Let_def split: option.splits)

lemma foldl_collect_fst:
  "set (fst (foldl (collect_step pInt) acc vs)) =
     set (fst acc) \<union> {p. \<exists>v \<in> set vs. vectorPostId pInt v = Some p}"
proof (induction vs arbitrary: acc)
  case Nil
  show ?case by simp
next
  case (Cons v vs)
  show ?case
    unfolding foldl_Cons Cons.IH collect_step_fst
    by (auto split: option.splits)
qed

lemma foldl_collect_snd:
  "snd (foldl (collect_step pInt) acc vs) p =
     (if filter (\<lambda>v. vectorPostId pInt v = Some p) vs = [] then snd acc p
      else Some ((case snd acc p of None \<Rightarrow> [] | Some old \<Rightarrow> old)
                 @ filter (\<lambda>v. vectorPostId pInt v = Some p) vs))"
proof (induction vs arbitrary: acc)
  case Nil
  show ?case by simp
next
  case (Cons v vs)
  show ?case
    unfolding foldl_Cons Cons.IH collect_step_snd
    by simp
qed

lemma collect_vectors_fst:
  "set (fst (collect_vectors pInt vs)) = {p. \<exists>v \<in> set vs. vectorPostId pInt v = Some p}"
  by (simp add: collect_vectors_def foldl_collect_fst)

lemma collect_vectors_snd:
  "(case snd (collect_vectors pInt vs) p of None \<Rightarrow> [] | Some xs \<Rightarrow> xs)
     = filter (\<lambda>v. vectorPostId pInt v = Some p) vs"
  by (simp add: collect_vectors_def foldl_collect_snd)

lemma foldl_orphan_snd:
  "snd (foldl (orphan_step wp m) acc ps) =
     snd acc @ concat (map (\<lambda>p. case m p of None \<Rightarrow> [] | Some xs \<Rightarrow> xs)
                           (filter (\<lambda>p. p \<notin> set wp) ps))"
  by (induction ps arbitrary: acc) (simp_all add: orphan_step_def)

lemma set_vectorIdsToDelete:
  "set (vectorIdsToDelete pInt wp vs) = {v \<in> set vs. \<exists>p. vectorPostId pInt v = Some p \<and> p \<notin> set wp}"
proof -
  have "set (vectorIdsToDelete pInt wp vs) =
        (\<Union>p \<in> {p \<in> set (fst (collect_vectors pInt vs)). p \<notin> set wp}.
           set (filter (\<lambda>v. vectorPostId pInt v = Some p) vs))"
    by (simp add: vectorIdsToDelete_def find_deleted_def Let_def foldl_orphan_snd
        collect_vectors_snd)
  also have "\<dots> = {v \<in> set vs. \<exists>p. vectorPostId pInt v = Some p \<and> p \<notin> set wp}"
    unfolding collect_vectors_fst by auto
  finally show ?thesis .
qed

lemma concat_slice_batches: "0 < n \<Longrightarrow> concat (slice_batches n xs) = xs"
proof (induction n xs rule: slice_batches.induct)
  case (1 batchSize xs)
  show ?case
  proof (cases "xs = []")
    case True
    then show ?thesis by (subst slice_batches.simps) simp
  next
    case False
    with 1 have "concat (slice_batches batchSize (drop batchSize xs)) = drop batchSize xs"
      by simp
    with False 1(2) show ?thesis by (subst slice_batches.simps) simp
  qed
qed

lemma foldl_deleteMany:
  "foldl deleteMany st bs = filter (\<lambda>kv. fst kv \<notin> set (concat bs)) st"
proof (induction bs arbitrary: st)
  case Nil
  show ?case by simp
next
  case (Cons b bs)
  show ?case
    unfolding foldl_Cons Cons.IH by (auto simp: deleteMany_def intro: filter_cong)
qed

lemma delete_batches_completes:
  "fst (delete_batches f i st bs) = None \<Longrightarrow> snd (delete_batches f i st bs) = foldl deleteMany st bs"
  by (induction bs arbitrary: i st) (auto split: sum.splits)

lemma deleteMany_keeps:
  "v \<notin> set b \<Longrightarrow> filter (\<lambda>kv. fst kv = v) (deleteMany st b) = filter (\<lambda>kv. fst kv = v) st"
  by (auto simp: deleteMany_def intro: filter_cong)

lemma delete_batches_keeps:
  "v \<notin> set (concat bs) \<Longrightarrow>
   filter (\<lambda>kv. fst kv = v) (snd (delete_batches f i st bs)) = filter (\<lambda>kv. fst kv = v) st"
  by (induction bs arbitrary: i st) (auto simp: deleteMany_keeps split: sum.splits)

lemma deleteByVectorIds_completes:
  "fst (deleteByVectorIds f st ids) = None \<Longrightarrow>
   snd (deleteByVectorIds f st ids) = filter (\<lambda>kv. fst kv \<notin> set ids) st"
proof (cases "ids = []")
  case True
  then show ?thesis by (simp add: deleteByVectorIds_def)
next
  case False
  assume "fst (deleteByVectorIds f st ids) = None"
  with False have "fst (delete_batches f 0 st (slice_batches 1000 ids)) = None"
    by (simp add: deleteByVectorIds_def)
  then have "snd (delete_batches f 0 st (slice_batches 1000 ids))
      = foldl deleteMany st (slice_batches 1000 ids)"
    by (rule delete_batches_completes)
  with False show ?thesis
    by (simp add: deleteByVectorIds_def foldl_deleteMany concat_slice_batches)
qed

lemma deleteByVectorIds_keeps:
  "v \<notin> set ids \<Longrightarrow>
   filter (\<lambda>kv. fst kv = v) (snd (deleteByVectorIds f st ids)) = filter (\<lambda>kv. fst kv = v) st"
  by (simp add: deleteByVectorIds_def delete_batches_keeps concat_slice_batches)

lemma clean_completes:
  assumes "cl_fetchSettings calls = Inr True" "fst (clean pInt calls wp st) = None"
  shows "\<exists>S. cl_listVectorIds calls = Inr S
             \<and> snd (clean pInt calls wp st)
                 = filter (\<lambda>kv. fst kv \<notin> set (vectorIdsToDelete pInt wp S)) st"
  using assms
  by (auto simp: clean_def Let_def deleteByVectorIds_completes split: sum.splits if_splits)

lemma clean_keeps:
  assumes "\<And>S. v \<notin> set (vectorIdsToDelete pInt wp S)"
  shows "filter (\<lambda>kv. fst kv = v) (snd (clean pInt calls wp st)) = filter (\<lambda>kv. fst kv = v) st"
  using assms
  by (auto simp: clean_def Let_def deleteByVectorIds_keeps split: sum.splits)

section \<open>Claims about vector identifiers\<close>

lemma decimal_value_show_nat_le:
  "0 \<le> k \<Longrightarrow> k \<le> MAX_SAFE_INTEGER \<Longrightarrow> decimal_value (show_nat (nat k)) \<le> MAX_SAFE_INTEGER"
  by (simp add: decimal_value_show_nat)

lemma int_numbers_safe: "safe_integer_numbers (\<lambda>k. k) int_toString decimal_value"
  by (simp add: safe_integer_numbers_def int_toString_def)

text \<open>
  C1 (as amended). For every post id \<open>d\<close> and chunk index \<open>n\<close> that are safe integers and
  not negative (\<open>0 \<le> d, n \<le> 2^53 - 1\<close>), the vector id built when indexing chunk \<open>n\<close> of
  post \<open>d\<close> is the string \<open>post-{d}-chunk-{n}\<close> with both numbers in decimal notation
  (the prefix is \<open>post-\<close>, not \<open>doc-\<close>), it is the id of the vector that
  \<^verbatim>\<open>createVector\<close> returns, and the pattern of \<^verbatim>\<open>clean()\<close> followed by \<^verbatim>\<open>parseInt\<close>
  recovers \<open>d\<close> from it.
\<close>

theorem vector_id_roundtrip:
  assumes "safe_integer_numbers num toStr pInt"
    and "0 \<le> d" and "d \<le> MAX_SAFE_INTEGER" and "0 \<le> n" and "n \<le> MAX_SAFE_INTEGER"
  shows "createVectorId toStr (num d) (num n)
           = ''post-'' @ show_nat (nat d) @ ''-chunk-'' @ show_nat (nat n)
         \<and> vec_id (createVector toStr (num d) (num n) e m) = createVectorId toStr (num d) (num n)
         \<and> vectorPostId pInt (createVectorId toStr (num d) (num n)) = Some (num d)"
proof -
  from assms have pd: "toStr (num d) = show_nat (nat d)" and pn: "toStr (num n) = show_nat (nat n)"
    by (simp_all add: safe_integer_numbers_def)
  then have eq: "createVectorId toStr (num d) (num n)
      = ''post-'' @ show_nat (nat d) @ ''-chunk-'' @ show_nat (nat n)"
    by (simp add: createVectorId_def)
  have m: "vectorPostId pInt (createVectorId toStr (num d) (num n))
      = Some (pInt (show_nat (nat d)))"
    unfolding eq vectorPostId_def by (simp only: match_createVectorId_nat option.map)
  from assms(2,3) have "decimal_value (show_nat (nat d)) = d"
    and "decimal_value (show_nat (nat d)) \<le> MAX_SAFE_INTEGER"
    by (simp_all add: decimal_value_show_nat)
  with assms(1) have "pInt (show_nat (nat d)) = num d"
    by (simp add: safe_integer_numbers_def show_nat_nonempty show_nat_digits)
  with m eq show ?thesis
    by (simp add: createVector_def)
qed

theorem vector_id_roundtrip_witness:
  "(0::int) \<le> 123 \<and> 123 \<le> MAX_SAFE_INTEGER \<and> (0::int) \<le> 0 \<and> 0 \<le> MAX_SAFE_INTEGER
   \<and> createVectorId int_toString 123 0 = ''post-123-chunk-0''
   \<and> vectorPostId decimal_value ''post-123-chunk-0'' = Some 123"
proof -
  have s: "show_nat 123 = ''123''" "show_nat 0 = ''0''"
    by code_simp+
  have h: "(0::int) \<le> 123" "123 \<le> MAX_SAFE_INTEGER" "(0::int) \<le> 0" "0 \<le> MAX_SAFE_INTEGER"
    by (simp_all add: MAX_SAFE_INTEGER_def)
  note r = vector_id_roundtrip [OF int_numbers_safe h, where e = "()" and m = "()"]
  from r s have a: "createVectorId int_toString 123 0 = ''post-123-chunk-0''" by simp
  from r have "vectorPostId decimal_value (createVectorId int_toString 123 0) = Some 123"
    by (rule conjunct2 [OF conjunct2])
  then have "vectorPostId decimal_value ''post-123-chunk-0'' = Some 123" by (simp only: a)
  with a h show ?thesis by simp
qed

text \<open>
  C1 as the specification words it fails: the id of chunk 0 of post 1 is
  \<open>post-1-chunk-0\<close>, not \<open>doc-1-chunk-0\<close>.
\<close>

theorem vector_id_doc_prefix_counterexample:
  "createVectorId int_toString 1 0 = ''post-1-chunk-0''
   \<and> createVectorId int_toString 1 0 \<noteq> ''doc-1-chunk-0''"
  by code_simp

section \<open>Claims about reconciliation\<close>

lemma vectorPostId_small:
  assumes "safe_integer_numbers num toStr pInt"
  shows "vectorPostId pInt ''post-1-chunk-0'' = Some (num 1)"
    and "vectorPostId pInt ''post-2-chunk-0'' = Some (num 2)"
    and "vectorPostId pInt ''post-5-chunk-0'' = Some (num 5)"
    and "vectorPostId pInt ''post-5-chunk-1'' = Some (num 5)"
    and "num 1 \<noteq> num 5" and "num 2 \<noteq> num 5" and "num 1 \<noteq> num 2"
proof -
  have m: "match_vectorIdPattern ''post-1-chunk-0'' = Some ''1''"
    "match_vectorIdPattern ''post-2-chunk-0'' = Some ''2''"
    "match_vectorIdPattern ''post-5-chunk-0'' = Some ''5''"
    "match_vectorIdPattern ''post-5-chunk-1'' = Some ''5''"
    by code_simp+
  have v: "decimal_value ''1'' = 1" "decimal_value ''2'' = 2" "decimal_value ''5'' = 5"
    by (simp_all add: decimal_value_def digit_val_def)
  have d: "list_all is_digit ''1''" "list_all is_digit ''2''" "list_all is_digit ''5''"
    by (simp_all add: is_digit_def)
  from assms v d have p: "pInt ''1'' = num 1" "pInt ''2'' = num 2" "pInt ''5'' = num 5"
    by (simp_all add: safe_integer_numbers_def MAX_SAFE_INTEGER_def)
  from m p show "vectorPostId pInt ''post-1-chunk-0'' = Some (num 1)"
    "vectorPostId pInt ''post-2-chunk-0'' = Some (num 2)"
    "vectorPostId pInt ''post-5-chunk-0'' = Some (num 5)"
    "vectorPostId pInt ''post-5-chunk-1'' = Some (num 5)"
    by (simp_all add: vectorPostId_def)
  from assms have inj: "\<And>j k. 0 \<le> j \<Longrightarrow> j \<le> MAX_SAFE_INTEGER \<Longrightarrow> 0 \<le> k
      \<Longrightarrow> k \<le> MAX_SAFE_INTEGER \<Longrightarrow> num j = num k \<Longrightarrow> j = k"
    unfolding safe_integer_numbers_def by blast
  from inj [of 1 5] show "num 1 \<noteq> num 5" by (auto simp: MAX_SAFE_INTEGER_def)
  from inj [of 2 5] show "num 2 \<noteq> num 5" by (auto simp: MAX_SAFE_INTEGER_def)
  from inj [of 1 2] show "num 1 \<noteq> num 2" by (auto simp: MAX_SAFE_INTEGER_def)
qed

lemma vectorIdsToDelete_example:
  assumes "safe_integer_numbers num toStr pInt"
  shows "vectorIdsToDelete pInt [num 1, num 2]
           [''post-1-chunk-0'', ''post-2-chunk-0'', ''post-5-chunk-0'', ''post-5-chunk-1'']
         = [''post-5-chunk-0'', ''post-5-chunk-1'']"
proof -
  note f = vectorPostId_small [OF assms]
  have c: "\<And>acc v p. vectorPostId pInt v = Some p \<Longrightarrow>
      collect_step pInt acc v
        = (set_add (fst acc) p,
           (snd acc)(p \<mapsto> (case snd acc p of None \<Rightarrow> [] | Some vs \<Rightarrow> vs) @ [v]))"
    by (auto simp: collect_step_def vectorPostId_def Let_def split: option.splits)
  have "collect_vectors pInt
          [''post-1-chunk-0'', ''post-2-chunk-0'', ''post-5-chunk-0'', ''post-5-chunk-1'']
        = ([num 1, num 2, num 5],
           [num 1 \<mapsto> [''post-1-chunk-0''], num 2 \<mapsto> [''post-2-chunk-0''],
            num 5 \<mapsto> [''post-5-chunk-0'', ''post-5-chunk-1'']])"
    using f(5-7) by (simp add: collect_vectors_def c [OF f(1)] c [OF f(2)] c [OF f(3)]
        c [OF f(4)] set_add_def fun_upd_twist)
  with f(5-7) show ?thesis
    by (simp add: vectorIdsToDelete_def find_deleted_def orphan_step_def)
qed

text \<open>
  C2 (as amended). For every run of \<^verbatim>\<open>clean()\<close> with reconciliation enabled that returns
  without throwing, with live post ids \<open>L\<close> and enumerated vector ids \<open>S\<close>: the ids passed to
  deletion are exactly the ids of \<open>S\<close> that match \<open>post-{digits}-chunk-{digits}\<close> and whose
  post id, as \<^verbatim>\<open>parseInt\<close> reads it, is absent from \<open>L\<close>; the store afterwards is the store
  without the entries of those ids, every other entry untouched; and for \<open>L = {1, 2}\<close> and
  \<open>S = {post-1-chunk-0, post-2-chunk-0, post-5-chunk-0, post-5-chunk-1}\<close> exactly
  \<open>post-5-chunk-0\<close> and \<open>post-5-chunk-1\<close> are deleted.
\<close>

theorem clean_deletes_exactly_orphans:
  "set (vectorIdsToDelete pInt L S)
     = {v \<in> set S. \<exists>p. vectorPostId pInt v = Some p \<and> p \<notin> set L}
   \<and> (cl_fetchSettings calls = Inr True \<and> fst (clean pInt calls L st) = None
        \<longrightarrow> (\<exists>S'. cl_listVectorIds calls = Inr S'
               \<and> snd (clean pInt calls L st)
                   = filter (\<lambda>kv. \<not> (fst kv \<in> set S'
                               \<and> (\<exists>p. vectorPostId pInt (fst kv) = Some p \<and> p \<notin> set L))) st))
   \<and> (safe_integer_numbers num toStr pInt
        \<longrightarrow> vectorIdsToDelete pInt [num 1, num 2]
              [''post-1-chunk-0'', ''post-2-chunk-0'', ''post-5-chunk-0'', ''post-5-chunk-1'']
            = [''post-5-chunk-0'', ''post-5-chunk-1''])"
proof -
  have a: "set (vectorIdsToDelete pInt L S)
      = {v \<in> set S. \<exists>p. vectorPostId pInt v = Some p \<and> p \<notin> set L}"
    by (rule set_vectorIdsToDelete)
  have b: "cl_fetchSettings calls = Inr True \<and> fst (clean pInt calls L st) = None
        \<longrightarrow> (\<exists>S'. cl_listVectorIds calls = Inr S'
               \<and> snd (clean pInt calls L st)
                   = filter (\<lambda>kv. \<not> (fst kv \<in> set S'
                               \<and> (\<exists>p. vectorPostId pInt (fst kv) = Some p \<and> p \<notin> set L))) st)"
  proof
    assume h: "cl_fetchSettings calls = Inr True \<and> fst (clean pInt calls L st) = None"
    then obtain S' where l: "cl_listVectorIds calls = Inr S'"
      and s: "snd (clean pInt calls L st)
                = filter (\<lambda>kv. fst kv \<notin> set (vectorIdsToDelete pInt L S')) st"
      using clean_completes [of calls pInt L st] by blast
    have "filter (\<lambda>kv. fst kv \<notin> set (vectorIdsToDelete pInt L S')) st
        = filter (\<lambda>kv. \<not> (fst kv \<in> set S'
                      \<and> (\<exists>p. vectorPostId pInt (fst kv) = Some p \<and> p \<notin> set L))) st"
      unfolding set_vectorIdsToDelete by simp
    with l s show "\<exists>S'. cl_listVectorIds calls = Inr S'
               \<and> snd (clean pInt calls L st)
                   = filter (\<lambda>kv. \<not> (fst kv \<in> set S'
                               \<and> (\<exists>p. vectorPostId pInt (fst kv) = Some p \<and> p \<notin> set L))) st"
      by simp
  qed
  have c: "safe_integer_numbers num toStr pInt
        \<longrightarrow> vectorIdsToDelete pInt [num 1, num 2]
              [''post-1-chunk-0'', ''post-2-chunk-0'', ''post-5-chunk-0'', ''post-5-chunk-1'']
            = [''post-5-chunk-0'', ''post-5-chunk-1'']"
    by (simp add: vectorIdsToDelete_example)
  from a b c show ?thesis by blast
qed

theorem clean_deletes_exactly_orphans_witness:
  "clean decimal_value
     \<lparr>cl_fetchSettings = Inr True, cl_initialize = Inr (), cl_getStats = Inr (),
      cl_listVectorIds =
        Inr [''post-1-chunk-0'', ''post-2-chunk-0'', ''post-5-chunk-0'', ''post-5-chunk-1''],
      cl_deleteMany = (\<lambda>i. Inr ())\<rparr>
     [1, 2]
     [(''post-1-chunk-0'', ''a''), (''post-2-chunk-0'', ''b''), (''post-5-chunk-0'', ''c''),
      (''post-5-chunk-1'', ''d'')]
   = (None, [(''post-1-chunk-0'', ''a''), (''post-2-chunk-0'', ''b'')])
   \<and> vectorIdsToDelete decimal_value [1, 2]
        [''post-1-chunk-0'', ''post-2-chunk-0'', ''post-5-chunk-0'', ''post-5-chunk-1'']
      = [''post-5-chunk-0'', ''post-5-chunk-1'']"
proof -
  let ?S = "[''post-1-chunk-0'', ''post-2-chunk-0'', ''post-5-chunk-0'', ''post-5-chunk-1'']"
  let ?calls = "\<lparr>cl_fetchSettings = Inr True, cl_initialize = Inr (), cl_getStats = Inr (),
      cl_listVectorIds = Inr ?S, cl_deleteMany = (\<lambda>i. Inr ())\<rparr>"
  let ?st = "[(''post-1-chunk-0'', ''a''), (''post-2-chunk-0'', ''b''),
      (''post-5-chunk-0'', ''c''), (''post-5-chunk-1'', ''d'')]"
  note t = clean_deletes_exactly_orphans [where pInt = decimal_value and num = "\<lambda>k. k"
      and toStr = int_toString and L = "[1, 2]" and calls = ?calls and st = ?st]
  from t int_numbers_safe have e: "vectorIdsToDelete decimal_value [1, 2] ?S
      = [''post-5-chunk-0'', ''post-5-chunk-1'']"
    by blast
  have r: "clean decimal_value ?calls [1, 2] ?st
      = (None, [(''post-1-chunk-0'', ''a''), (''post-2-chunk-0'', ''b'')])"
    by (simp add: clean_def e deleteByVectorIds_def slice_batches.simps deleteMany_def)
  from r e show ?thesis by simp
qed

text \<open>
  C2 as the specification words it fails, twice. On the store ids \<open>doc-1-chunk-0\<close>,
  \<open>doc-2-chunk-0\<close>, \<open>doc-5-chunk-0\<close>, \<open>doc-5-chunk-1\<close> and the live ids 1 and 2, no id
  matches the pattern, and \<^verbatim>\<open>clean()\<close> deletes nothing. And a run in which \<^verbatim>\<open>deleteMany\<close>
  throws leaves the vector of the deleted post 5 in the store.
\<close>

theorem clean_doc_prefix_counterexample:
  "set (vectorIdsToDelete decimal_value [1, 2]
        [''doc-1-chunk-0'', ''doc-2-chunk-0'', ''doc-5-chunk-0'', ''doc-5-chunk-1''])
     \<noteq> {''doc-5-chunk-0'', ''doc-5-chunk-1''}
   \<and> clean decimal_value
       \<lparr>cl_fetchSettings = Inr True, cl_initialize = Inr (), cl_getStats = Inr (),
        cl_listVectorIds = Inr [''post-5-chunk-0''],
        cl_deleteMany = (\<lambda>i. Inl (plain_error ''unavailable''))\<rparr>
       [1, 2] [(''post-5-chunk-0'', ''c'')]
     = (Some (plain_error ''unavailable''), [(''post-5-chunk-0'', ''c'')])"
proof -
  have "vectorIdsToDelete decimal_value [1, 2]
        [''doc-1-chunk-0'', ''doc-2-chunk-0'', ''doc-5-chunk-0'', ''doc-5-chunk-1''] = []"
    by code_simp
  moreover have "vectorIdsToDelete decimal_value [1, 2] [''post-5-chunk-0'']
      = [''post-5-chunk-0'']"
    by code_simp
  ultimately show ?thesis
    by (simp add: clean_def deleteByVectorIds_def slice_batches.simps)
qed

text \<open>
  C10. A vector id that does not match \<open>post-{digits}-chunk-{digits}\<close> is never in the
  deletion list of \<^verbatim>\<open>clean()\<close>, and the store entries under that id are the same after the
  run as before, whatever the live post ids and the setting are, and whether the run
  returns or throws.
\<close>

theorem clean_keeps_unparsed_ids:
  assumes "match_vectorIdPattern v = None"
  shows "v \<notin> set (vectorIdsToDelete pInt L S)
         \<and> filter (\<lambda>kv. fst kv = v) (snd (clean pInt calls L st)) = filter (\<lambda>kv. fst kv = v) st"
proof -
  from assms have "vectorPostId pInt v = None"
    by (simp add: vectorPostId_def)
  then have notin: "\<And>S. v \<notin> set (vectorIdsToDelete pInt L S)"
    by (simp add: set_vectorIdsToDelete)
  from clean_keeps [of v pInt L calls st, OF notin] notin show ?thesis by simp
qed

theorem clean_keeps_unparsed_ids_witness:
  "match_vectorIdPattern ''page-7-chunk-0'' = None
   \<and> ''page-7-chunk-0''
       \<notin> set (vectorIdsToDelete decimal_value [1] [''page-7-chunk-0'', ''post-7-chunk-0''])
   \<and> filter (\<lambda>kv. fst kv = ''page-7-chunk-0'')
        (snd (clean decimal_value
           \<lparr>cl_fetchSettings = Inr True, cl_initialize = Inr (), cl_getStats = Inr (),
            cl_listVectorIds = Inr [''page-7-chunk-0'', ''post-7-chunk-0''],
            cl_deleteMany = (\<lambda>i. Inr ())\<rparr>
           [1] [(''page-7-chunk-0'', True), (''post-7-chunk-0'', False)]))
      = [(''page-7-chunk-0'', True)]"
proof -
  have h: "match_vectorIdPattern ''page-7-chunk-0'' = None"
    by code_simp
  from clean_keeps_unparsed_ids [OF h, where pInt = decimal_value and L = "[1]"
      and S = "[''page-7-chunk-0'', ''post-7-chunk-0'']"
      and calls = "\<lparr>cl_fetchSettings = Inr True, cl_initialize = Inr (), cl_getStats = Inr (),
            cl_listVectorIds = Inr [''page-7-chunk-0'', ''post-7-chunk-0''],
            cl_deleteMany = (\<lambda>i. Inr ())\<rparr>"
      and st = "[(''page-7-chunk-0'', True), (''post-7-chunk-0'', False)]"] h
  show ?thesis by simp
qed

section \<open>Claims about the chunker\<close>

lemma chunk_loop_more_fuel:
  "chunk_loop n st content s = Some r \<Longrightarrow> chunk_loop (n + k) st content s = Some r"
proof (induction n arbitrary: s)
  case 0
  then show ?case by simp
next
  case (Suc n)
  from Suc.prems show ?case
    by (auto simp: Let_def Suc.IH split: if_splits)
qed

text \<open>
  C3, evaluated on the code. With chunk size 100 and overlap 90, on 201 characters whose
  only space is at index 180, the loop returns four chunks cut from the spans \<open>[0, 100)\<close>,
  \<open>[100, 180)\<close>, \<open>[90, 180)\<close>, \<open>[180, 201)\<close>: the third chunk starts before the second,
  so the start positions are not strictly increasing.
\<close>

theorem chunk_starts_move_backward:
  "chunkSpans 4 \<lparr>chunk_size = 100, chunk_overlap = 90\<rparr> text_space_at_180
     = Some [(0, 100), (100, 180), (90, 180), (180, 201)]
   \<and> \<not> sorted_wrt (<) (map fst [(0 :: int, 100 :: int), (100, 180), (90, 180), (180, 201)])"
proof -
  have "chunkSpans 4 \<lparr>chunk_size = 100, chunk_overlap = 90\<rparr> text_space_at_180
     = Some [(0, 100), (100, 180), (90, 180), (180, 201)]"
    by code_simp
  then show ?thesis by simp
qed

text \<open>
  The same settings on 201 characters whose only space is at index 181: from the third
  iteration on the position stays at 91, and the loop never ends, whatever the fuel.
\<close>

lemma length_text_space_at_181: "length text_space_at_181 = 201"
  by (simp add: text_space_at_181_def)

lemma normalize_text_space_at_181: "normalize text_space_at_181 = text_space_at_181"
  by code_simp

lemma breaks_text_space_at_181:
  "findBreakPoint \<lparr>chunk_size = 100, chunk_overlap = 90\<rparr> text_space_at_181 0 100 = 100"
  "findBreakPoint \<lparr>chunk_size = 100, chunk_overlap = 90\<rparr> text_space_at_181 100 200 = 181"
  "findBreakPoint \<lparr>chunk_size = 100, chunk_overlap = 90\<rparr> text_space_at_181 91 191 = 181"
  by code_simp+

lemma slices_text_space_at_181:
  "js_trim (js_slice text_space_at_181 0 100) = replicate 100 CHR ''a''"
  "js_trim (js_slice text_space_at_181 100 181) = replicate 81 CHR ''a''"
  "js_trim (js_slice text_space_at_181 91 181) = replicate 90 CHR ''a''"
  by code_simp+

lemma case_snoc: "(case xs @ [x] of [] \<Rightarrow> False | _ # _ \<Rightarrow> P) = P"
  by (cases xs) simp_all

lemma chunk_loop_stuck_at_91:
  "position s = 91 \<Longrightarrow>
   chunk_loop n \<lparr>chunk_size = 100, chunk_overlap = 90\<rparr> text_space_at_181 s = None"
proof (induction n arbitrary: s)
  case 0
  show ?case by simp
next
  case (Suc n)
  show ?case
    using Suc.prems
    by (simp add: length_text_space_at_181 breaks_text_space_at_181 slices_text_space_at_181
        Let_def Suc.IH case_snoc)
qed

lemma chunkContent_never_returns:
  "chunkContent fuel \<lparr>chunk_size = 100, chunk_overlap = 90\<rparr> text_space_at_181 = None"
proof (cases fuel)
  case 0
  then show ?thesis
    by (simp add: chunkContent_def normalize_text_space_at_181 length_text_space_at_181
        chunk_run_def)
next
  case (Suc m)
  show ?thesis
  proof (cases m)
    case 0
    with \<open>fuel = Suc m\<close> show ?thesis
      by (simp add: chunkContent_def normalize_text_space_at_181 length_text_space_at_181
          chunk_run_def breaks_text_space_at_181 slices_text_space_at_181 Let_def case_snoc)
  next
    case (Suc k)
    with \<open>fuel = Suc m\<close> show ?thesis
      by (simp add: chunkContent_def normalize_text_space_at_181 length_text_space_at_181
          chunk_run_def breaks_text_space_at_181 slices_text_space_at_181 Let_def case_snoc
          chunk_loop_stuck_at_91)
  qed
qed

lemma dropWhile_prefix_fixed:
  assumes "dropWhile P s = ys @ zs"
  shows "dropWhile P ys = ys"
proof (cases ys)
  case Nil
  then show ?thesis by simp
next
  case (Cons y ys')
  with assms have "dropWhile P s = y # (ys' @ zs)" by simp
  then have "\<not> P y" by (simp add: dropWhile_eq_Cons_conv)
  with Cons show ?thesis by simp
qed

lemma dropWhile_rev_dropWhile:
  "dropWhile P (rev (dropWhile P (rev (dropWhile P s)))) = rev (dropWhile P (rev (dropWhile P s)))"
proof -
  let ?d = "dropWhile P s"
  let ?u = "dropWhile P (rev ?d)"
  have "rev (takeWhile P (rev ?d) @ ?u) = rev (rev ?d)"
    by (simp only: takeWhile_dropWhile_id)
  then have "?d = rev ?u @ rev (takeWhile P (rev ?d))"
    by (simp only: rev_append rev_rev_ident)
  then show ?thesis by (rule dropWhile_prefix_fixed)
qed

lemma js_trim_idem: "js_trim (js_trim s) = js_trim s"
  by (simp add: js_trim_def dropWhile_rev_dropWhile)

lemma chunk_loop_trimmed_chunks:
  assumes "chunk_loop fuel st content s = Some r"
    and "\<forall>c \<in> set (chunks s). chunk_text c \<noteq> [] \<and> js_trim (chunk_text c) = chunk_text c"
  shows "\<forall>c \<in> set (chunks r). chunk_text c \<noteq> [] \<and> js_trim (chunk_text c) = chunk_text c"
  using assms
proof (induction fuel arbitrary: s)
  case 0
  then show ?case by simp
next
  case (Suc fuel)
  show ?case
  proof (cases "position s < int (length content)")
    case False
    with Suc.prems show ?thesis by simp
  next
    case True
    define endPosition where "endPosition =
      (if position s + chunk_size st < int (length content)
       then findBreakPoint st content (position s) (position s + chunk_size st)
       else int (length content))"
    define chunkText where "chunkText = js_trim (js_slice content (position s) endPosition)"
    define s1 where "s1 =
      (if length chunkText > 0
       then s\<lparr>chunks := chunks s @ [\<lparr>chunk_text = chunkText, chunk_idx = chunkIndex s\<rparr>],
              chunkIndex := chunkIndex s + 1,
              spans := spans s @ [(position s, endPosition)]\<rparr>
       else s)"
    define p where "p = endPosition - chunk_overlap st"
    define goes_back where "goes_back =
      (case chunks s1 of [] \<Rightarrow> False
       | _ \<Rightarrow> p \<le> int (length (chunk_text (last (chunks s1)))))"
    define s2 where "s2 = s1\<lparr>position := (if goes_back then endPosition else p)\<rparr>"
    from True have step: "chunk_loop (Suc fuel) st content s
        = (if endPosition < int (length content) then chunk_loop fuel st content s2
           else Some s1)"
      unfolding s2_def goes_back_def p_def s1_def chunkText_def endPosition_def
      by (simp add: Let_def)
    have trimmed: "js_trim chunkText = chunkText"
      by (simp add: chunkText_def js_trim_idem)
    with Suc.prems(2)
    have inv1: "\<forall>c \<in> set (chunks s1). chunk_text c \<noteq> [] \<and> js_trim (chunk_text c) = chunk_text c"
      by (auto simp: s1_def)
    show ?thesis
    proof (cases "endPosition < int (length content)")
      case False
      with step Suc.prems(1) have "r = s1" by simp
      with inv1 show ?thesis by simp
    next
      case less: True
      with step Suc.prems(1) have run: "chunk_loop fuel st content s2 = Some r" by simp
      from inv1 have "\<forall>c \<in> set (chunks s2). chunk_text c \<noteq> []
          \<and> js_trim (chunk_text c) = chunk_text c"
        by (simp add: s2_def)
      with run show ?thesis by (rule Suc.IH)
    qed
  qed
qed

text \<open>
  C8 (as amended). For every input whose normalized text is not empty, whatever the chunk
  size and overlap, every chunk in the list that \<^verbatim>\<open>chunkContent\<close> returns has a text that is
  not empty and is already trimmed. On an input whose normalized text is empty (the empty
  string, white space only) \<^verbatim>\<open>chunkContent\<close> returns one chunk, with index 0 and empty text.
\<close>

theorem chunks_not_empty:
  "(normalize content \<noteq> [] \<and> chunkContent fuel st content = Some cs
      \<longrightarrow> (\<forall>c \<in> set cs. chunk_text c \<noteq> [] \<and> js_trim (chunk_text c) = chunk_text c))
   \<and> (normalize content = [] \<and> 0 \<le> chunk_size st
      \<longrightarrow> chunkContent fuel st content = Some [\<lparr>chunk_text = [], chunk_idx = 0\<rparr>])"
proof -
  have a: "normalize content \<noteq> [] \<and> chunkContent fuel st content = Some cs
      \<longrightarrow> (\<forall>c \<in> set cs. chunk_text c \<noteq> [] \<and> js_trim (chunk_text c) = chunk_text c)"
  proof
    assume h: "normalize content \<noteq> [] \<and> chunkContent fuel st content = Some cs"
    show "\<forall>c \<in> set cs. chunk_text c \<noteq> [] \<and> js_trim (chunk_text c) = chunk_text c"
    proof (cases "int (length (normalize content)) \<le> chunk_size st")
      case True
      with h have "cs = [\<lparr>chunk_text = normalize content, chunk_idx = 0\<rparr>]"
        by (simp add: chunkContent_def Let_def)
      with h show ?thesis by (simp add: normalize_def js_trim_idem)
    next
      case False
      with h obtain r where r: "chunk_run fuel st (normalize content) = Some r"
        and cs: "cs = chunks r"
        by (auto simp: chunkContent_def Let_def)
      from r have "chunk_loop fuel st (normalize content)
          \<lparr>position = 0, chunkIndex = 0, chunks = [], spans = []\<rparr> = Some r"
        by (simp add: chunk_run_def)
      then have "\<forall>c \<in> set (chunks r). chunk_text c \<noteq> []
          \<and> js_trim (chunk_text c) = chunk_text c"
        by (rule chunk_loop_trimmed_chunks) simp
      with cs show ?thesis by simp
    qed
  qed
  have b: "normalize content = [] \<and> 0 \<le> chunk_size st
      \<longrightarrow> chunkContent fuel st content = Some [\<lparr>chunk_text = [], chunk_idx = 0\<rparr>]"
    by (simp add: chunkContent_def Let_def)
  from a b show ?thesis by blast
qed

theorem chunks_not_empty_witness:
  "normalize text_space_at_180 \<noteq> []
   \<and> chunkContent 4 \<lparr>chunk_size = 100, chunk_overlap = 90\<rparr> text_space_at_180
     = Some [\<lparr>chunk_text = replicate 100 CHR ''a'', chunk_idx = 0\<rparr>,
             \<lparr>chunk_text = replicate 80 CHR ''a'', chunk_idx = 1\<rparr>,
             \<lparr>chunk_text = replicate 90 CHR ''a'', chunk_idx = 2\<rparr>,
             \<lparr>chunk_text = replicate 20 CHR ''a'', chunk_idx = 3\<rparr>]
   \<and> list_all (\<lambda>c. chunk_text c \<noteq> [] \<and> js_trim (chunk_text c) = chunk_text c)
       [\<lparr>chunk_text = replicate 100 CHR ''a'', chunk_idx = 0\<rparr>,
        \<lparr>chunk_text = replicate 80 CHR ''a'', chunk_idx = 1\<rparr>,
        \<lparr>chunk_text = replicate 90 CHR ''a'', chunk_idx = 2\<rparr>,
        \<lparr>chunk_text = replicate 20 CHR ''a'', chunk_idx = 3\<rparr>]
   \<and> chunkContent 4 \<lparr>chunk_size = 500, chunk_overlap = 50\<rparr> ''Hello   world ''
     = Some [\<lparr>chunk_text = ''Hello world'', chunk_idx = 0\<rparr>]"
proof -
  let ?st = "\<lparr>chunk_size = 100, chunk_overlap = 90\<rparr>"
  let ?cs = "[\<lparr>chunk_text = replicate 100 CHR ''a'', chunk_idx = 0\<rparr>,
             \<lparr>chunk_text = replicate 80 CHR ''a'', chunk_idx = 1\<rparr>,
             \<lparr>chunk_text = replicate 90 CHR ''a'', chunk_idx = 2\<rparr>,
             \<lparr>chunk_text = replicate 20 CHR ''a'', chunk_idx = 3\<rparr>]"
  have n: "normalize text_space_at_180 \<noteq> []"
    by code_simp
  have r: "chunkContent 4 ?st text_space_at_180 = Some ?cs"
    by code_simp
  have e: "chunkContent 4 \<lparr>chunk_size = 500, chunk_overlap = 50\<rparr> ''Hello   world ''
     = Some [\<lparr>chunk_text = ''Hello world'', chunk_idx = 0\<rparr>]"
    by code_simp
  from n r have h: "normalize text_space_at_180 \<noteq> []
      \<and> chunkContent 4 ?st text_space_at_180 = Some ?cs"
    by simp
  from chunks_not_empty [where content = text_space_at_180 and fuel = 4 and st = ?st
      and cs = ?cs, THEN conjunct1] h
  have "\<forall>c \<in> set ?cs. chunk_text c \<noteq> [] \<and> js_trim (chunk_text c) = chunk_text c"
    by (rule mp)
  then have "list_all (\<lambda>c. chunk_text c \<noteq> [] \<and> js_trim (chunk_text c) = chunk_text c) ?cs"
    unfolding list_all_iff .
  with n r e show ?thesis by blast
qed

text \<open>
  C8 as the specification words it fails on the empty string and on white space only:
  \<^verbatim>\<open>chunkContent\<close> returns one chunk whose text is empty, also after trimming.
\<close>

theorem chunkContent_empty_input_counterexample:
  "chunkContent 1 \<lparr>chunk_size = 500, chunk_overlap = 50\<rparr> []
     = Some [\<lparr>chunk_text = [], chunk_idx = 0\<rparr>]
   \<and> chunkContent 1 \<lparr>chunk_size = 500, chunk_overlap = 50\<rparr> [CHR '' '', CHR 0x0A, CHR '' '']
     = Some [\<lparr>chunk_text = [], chunk_idx = 0\<rparr>]
   \<and> js_trim [] = []"
  by (simp add: chunkContent_def normalize_def js_trim_def is_space_def)

section \<open>Claims about the rate limiter\<close>

lemma refill_le_capacity: "tokens (refill rl now) \<le> capacity rl"
  by (simp add: refill_def Let_def)

lemma refill_fields [simp]:
  "capacity (refill rl now) = capacity rl" "refillRate (refill rl now) = refillRate rl"
  "lastRefill (refill rl now) = now"
  by (simp_all add: refill_def Let_def)

lemma refill_in_range:
  assumes "tokens_in_range rl" "0 \<le> refillRate rl" "lastRefill rl \<le> now"
  shows "tokens_in_range (refill rl now)"
proof -
  from assms(3) have "0 \<le> real_of_int (now - lastRefill rl) / 1000" by simp
  then have "0 \<le> real_of_int (now - lastRefill rl) / 1000 * refillRate rl"
    using assms(2) by (rule mult_nonneg_nonneg)
  with assms(1) show ?thesis
    by (simp add: tokens_in_range_def refill_def Let_def)
qed

lemma acquire_pass_fields [simp]:
  "capacity (fst (acquire_pass rl n now)) = capacity rl"
  "refillRate (fst (acquire_pass rl n now)) = refillRate rl"
  "lastRefill (fst (acquire_pass rl n now)) = now"
  by (simp_all add: acquire_pass_def Let_def)

lemma acquire_pass_in_range:
  assumes "tokens_in_range rl" "0 \<le> refillRate rl" "lastRefill rl \<le> now" "1 \<le> n"
  shows "tokens_in_range (fst (acquire_pass rl n now))"
  using refill_in_range [OF assms(1-3)] assms(4)
  by (auto simp: acquire_pass_def Let_def tokens_in_range_def)

lemma acquire_states_in_range:
  assumes "rl_ok rl" "sorted (lastRefill rl # clocks)" "1 \<le> n"
  shows "(\<forall>s \<in> set (acquire_states rl n clocks). tokens_in_range s \<and> capacity s = capacity rl)
         \<and> rl_ok (fst (acquire rl n clocks))
         \<and> capacity (fst (acquire rl n clocks)) = capacity rl
         \<and> lastRefill (fst (acquire rl n clocks)) \<le> last (lastRefill rl # clocks)"
  using assms
proof (induction clocks arbitrary: rl)
  case Nil
  then show ?case by simp
next
  case (Cons now later)
  let ?p = "acquire_pass rl n now"
  from Cons.prems have le: "lastRefill rl \<le> now" by simp
  from Cons.prems have ok: "tokens_in_range rl" "0 \<le> refillRate rl" by (simp_all add: rl_ok_def)
  have r: "tokens_in_range (refill rl now)" by (rule refill_in_range [OF ok le])
  have p: "tokens_in_range (fst ?p)" by (rule acquire_pass_in_range [OF ok le Cons.prems(3)])
  then have pok: "rl_ok (fst ?p)" using ok by (simp add: rl_ok_def)
  from Cons.prems have srt: "sorted (lastRefill (fst ?p) # later)" by simp
  note IH = Cons.IH [OF pok srt Cons.prems(3)]
  show ?case
  proof (cases "snd ?p")
    case True
    from Cons.prems(2) have "now \<le> last (now # later)"
      by (cases later) (auto simp: sorted_iff_nth_mono last_conv_nth)
    with True r p pok show ?thesis
      by (simp add: case_prod_beta)
  next
    case False
    with r IH show ?thesis
      by (simp add: case_prod_beta)
  qed
qed

lemma pass_states_in_range:
  assumes "rl_ok rl" "sorted (lastRefill rl # map snd ps)" "\<forall>p \<in> set ps. 1 \<le> fst p"
  shows "\<forall>s \<in> set (pass_states rl ps). tokens_in_range s \<and> capacity s = capacity rl"
  using assms
proof (induction ps arbitrary: rl)
  case Nil
  then show ?case by simp
next
  case (Cons p ps)
  let ?a = "fst (acquire_pass rl (fst p) (snd p))"
  from Cons.prems have le: "lastRefill rl \<le> snd p" and n: "1 \<le> fst p" by simp_all
  from Cons.prems have ok: "tokens_in_range rl" "0 \<le> refillRate rl" by (simp_all add: rl_ok_def)
  have r: "tokens_in_range (refill rl (snd p))" by (rule refill_in_range [OF ok le])
  have a: "tokens_in_range ?a" by (rule acquire_pass_in_range [OF ok le n])
  with ok have aok: "rl_ok ?a" by (simp add: rl_ok_def)
  from Cons.prems have srt: "sorted (lastRefill ?a # map snd ps)" by simp
  from Cons.prems have ns: "\<forall>p \<in> set ps. 1 \<le> fst p" by simp
  from Cons.IH [OF aok srt ns] r a show ?case by simp
qed

lemma sorted_lower_head: "sorted (y # xs) \<Longrightarrow> (x::int) \<le> y \<Longrightarrow> sorted (x # xs)"
  by auto

lemma run_acquires_in_range:
  assumes "rl_ok rl" "sorted (lastRefill rl # concat (map snd calls))"
    "\<forall>c \<in> set calls. 1 \<le> fst c"
  shows "\<forall>s \<in> set (run_acquires rl calls). tokens_in_range s \<and> capacity s = capacity rl"
  using assms
proof (induction calls arbitrary: rl)
  case Nil
  then show ?case by simp
next
  case (Cons c calls)
  from Cons.prems(2) have s1: "sorted (lastRefill rl # snd c)"
    by (simp add: sorted_append)
  from Cons.prems(3) have n: "1 \<le> fst c" by simp
  note A = acquire_states_in_range [OF Cons.prems(1) s1 n]
  let ?r = "fst (acquire rl (fst c) (snd c))"
  from A have ok: "rl_ok ?r" and cap: "capacity ?r = capacity rl"
    and lr: "lastRefill ?r \<le> last (lastRefill rl # snd c)" by simp_all
  from Cons.prems(2) have "sorted (last (lastRefill rl # snd c) # concat (map snd calls))"
    by (auto simp: sorted_append)
  then have s2: "sorted (lastRefill ?r # concat (map snd calls))"
    using lr by (rule sorted_lower_head)
  from Cons.prems(3) have n2: "\<forall>c \<in> set calls. 1 \<le> fst c" by simp
  from Cons.IH [OF ok s2 n2] A cap show ?case by auto
qed

text \<open>
  C9 (as amended). For a limiter built with a positive rate and a burst size that is
  absent or not negative, for every sequence of calls \<^verbatim>\<open>acquire(n)\<close> with \<open>n \<ge> 1\<close> and for
  clock readings that never decrease from the construction on, every state the limiter
  goes through has \<open>0 \<le> tokens \<le> capacity\<close>, and so has every state of any sequence of
  passes of overlapping calls. A pass of \<^verbatim>\<open>acquire\<close> deducts \<open>n\<close> tokens
  only when the refill left at least \<open>n\<close>, and leaves the refilled count alone otherwise;
  a refill never raises the count above the capacity.
\<close>

theorem tokens_stay_in_range:
  assumes "0 < requestsPerSecond"
    and "case burstSize of None \<Rightarrow> True | Some b \<Rightarrow> 0 \<le> b"
    and "sorted (t0 # concat (map snd calls))"
    and "\<forall>c \<in> set calls. 1 \<le> fst c"
    and "sorted (t0 # map snd passes)"
    and "\<forall>p \<in> set passes. 1 \<le> fst p"
  shows "(\<forall>s \<in> set (RateLimiter_new requestsPerSecond burstSize t0
                     # run_acquires (RateLimiter_new requestsPerSecond burstSize t0) calls).
            0 \<le> tokens s \<and> tokens s \<le> capacity s)
         \<and> (\<forall>s \<in> set (pass_states (RateLimiter_new requestsPerSecond burstSize t0) passes).
            0 \<le> tokens s \<and> tokens s \<le> capacity s)
         \<and> tokens (refill rl now) \<le> capacity rl
         \<and> (snd (acquire_pass rl n now) \<longrightarrow>
              n \<le> tokens (refill rl now)
              \<and> tokens (fst (acquire_pass rl n now)) = tokens (refill rl now) - n)
         \<and> (\<not> snd (acquire_pass rl n now) \<longrightarrow> fst (acquire_pass rl n now) = refill rl now)"
proof -
  let ?rl0 = "RateLimiter_new requestsPerSecond burstSize t0"
  from assms(1,2) have r0: "tokens_in_range ?rl0"
    by (auto simp: RateLimiter_new_def tokens_in_range_def Let_def split: option.splits)
  from assms(1) have "0 \<le> refillRate ?rl0"
    by (simp add: RateLimiter_new_def Let_def)
  with r0 have ok: "rl_ok ?rl0" by (simp add: rl_ok_def)
  have "lastRefill ?rl0 = t0" by (simp add: RateLimiter_new_def Let_def)
  with assms(3) have srt: "sorted (lastRefill ?rl0 # concat (map snd calls))" by simp
  from run_acquires_in_range [OF ok srt assms(4)] r0
  have a: "\<forall>s \<in> set (?rl0 # run_acquires ?rl0 calls). 0 \<le> tokens s \<and> tokens s \<le> capacity s"
    by (auto simp: tokens_in_range_def)
  from assms(5) \<open>lastRefill ?rl0 = t0\<close>
  have srt2: "sorted (lastRefill ?rl0 # map snd passes)" by simp
  from pass_states_in_range [OF ok srt2 assms(6)]
  have a2: "\<forall>s \<in> set (pass_states ?rl0 passes). 0 \<le> tokens s \<and> tokens s \<le> capacity s"
    by (auto simp: tokens_in_range_def)
  have b: "tokens (refill rl now) \<le> capacity rl" by (rule refill_le_capacity)
  have c: "snd (acquire_pass rl n now) \<longrightarrow>
              n \<le> tokens (refill rl now)
              \<and> tokens (fst (acquire_pass rl n now)) = tokens (refill rl now) - n"
    by (simp add: acquire_pass_def Let_def)
  have d: "\<not> snd (acquire_pass rl n now) \<longrightarrow> fst (acquire_pass rl n now) = refill rl now"
    by (simp add: acquire_pass_def Let_def)
  from a a2 b c d show ?thesis by blast
qed

theorem tokens_stay_in_range_witness:
  "list_all (\<lambda>s. 0 \<le> tokens s \<and> tokens s \<le> capacity s)
     (RateLimiter_new 2 None 0
        # run_acquires (RateLimiter_new 2 None 0) [(1, [0]), (1, [100]), (1, [200, 700])])
   \<and> list_all (\<lambda>s. 0 \<le> tokens s \<and> tokens s \<le> capacity s)
     (pass_states (RateLimiter_new 2 None 0) [(1, 0), (2, 100), (1, 200), (2, 700)])
   \<and> snd (acquire_pass (RateLimiter_new 2 None 0) 1 0)
   \<and> tokens (fst (acquire_pass (RateLimiter_new 2 None 0) 1 0)) = 1"
proof -
  have h1: "(0::real) < 2" by simp
  have h2: "case (None :: real option) of None \<Rightarrow> True | Some b \<Rightarrow> 0 \<le> b" by simp
  have h3: "sorted ((0::int) # concat (map snd [(1::real, [0]), (1, [100]), (1, [200, 700])]))"
    by simp
  have h4: "\<forall>c \<in> set [(1::real, [0::int]), (1, [100]), (1, [200, 700])]. 1 \<le> fst c"
    by simp
  have h5: "sorted ((0::int) # map snd [(1::real, 0), (2, 100), (1, 200), (2, 700)])"
    by simp
  have h6: "\<forall>p \<in> set [(1::real, 0::int), (2, 100), (1, 200), (2, 700)]. 1 \<le> fst p"
    by simp
  note t = tokens_stay_in_range [OF h1 h2 h3 h4 h5 h6, of "RateLimiter_new 2 None 0" 0 1]
  have p: "snd (acquire_pass (RateLimiter_new 2 None 0) 1 0)"
    by (simp add: acquire_pass_def refill_def RateLimiter_new_def Let_def)
  have q: "tokens (refill (RateLimiter_new 2 None 0) 0) = 2"
    by (simp add: refill_def RateLimiter_new_def Let_def)
  from t p q show ?thesis
    by (simp add: list_all_iff)
qed

text \<open>
  C9 as the specification words it fails for a clock that steps back: a limiter of
  100 requests per second built at time 2000 ms that refills at time 0 ms holds -100
  tokens.
\<close>

theorem tokens_negative_counterexample:
  "tokens (fst (acquire (RateLimiter_new 100 None 2000) 1 [0])) < 0"
  by (simp add: acquire_pass_def refill_def RateLimiter_new_def Let_def)

section \<open>Claims about the circuit breaker\<close>









section \<open>Claims about the retry policy\<close>

lemma retry_loop_skip:
  assumes "\<forall>j < k. retryable_failure (fn (a + j))" "k \<le> left"
  shows "retry_loop fn random b m left a sl
         = retry_loop fn random b m (left - k) (a + k)
             (sl @ map (\<lambda>j. waitTime b m j (random j)) [a ..< a + k])"
  using assms
proof (induction k arbitrary: left a sl)
  case 0
  then show ?case by simp
next
  case (Suc k)
  from Suc.prems(2) obtain l where left: "left = Suc l" and kl: "k \<le> l"
    by (cases left) auto
  from Suc.prems(1) have "retryable_failure (fn (a + 0))" by blast
  then obtain e where e: "fn a = Inl e" "isRetryableError e"
    by (auto simp: retryable_failure_def split: sum.splits)
  from Suc.prems(1) have rest: "\<forall>j < k. retryable_failure (fn (Suc a + j))"
    by auto
  have "[a ..< a + Suc k] = a # [Suc a ..< Suc a + k]"
    by (simp add: upt_rec)
  with Suc.IH [OF rest kl, of "sl @ [waitTime b m a (random a)]"] e left
  show ?case by simp
qed

lemma waitTime_bounds:
  assumes "0 \<le> backoff_delay b m k" "0 \<le> r" "r < 1"
  shows "(7/8) * backoff_delay b m k - 1 < real_of_int (waitTime b m k r)"
    and "real_of_int (waitTime b m k r) \<le> (9/8) * backoff_delay b m k"
proof -
  let ?d = "backoff_delay b m k"
  let ?x = "?d + ?d * (1/4) * (r - (1/2))"
  have x: "?x = (7/8) * ?d + (1/4) * (?d * r)"
    by (simp add: field_simps)
  from assms have "0 \<le> ?d * r" by simp
  with x have lo: "(7/8) * ?d \<le> ?x" by linarith
  from assms have "?d * r \<le> ?d * 1" by (intro mult_left_mono) simp_all
  with x have hi: "?x \<le> (9/8) * ?d" by linarith
  have w: "waitTime b m k r = \<lfloor>?x\<rfloor>" by (simp add: waitTime_def Let_def)
  have "?x - 1 < real_of_int \<lfloor>?x\<rfloor>" by linarith
  with lo show "(7/8) * ?d - 1 < real_of_int (waitTime b m k r)" unfolding w by linarith
  have "real_of_int \<lfloor>?x\<rfloor> \<le> ?x" by linarith
  with hi show "real_of_int (waitTime b m k r) \<le> (9/8) * ?d" unfolding w by linarith
qed

text \<open>
  C5 (as amended). For every operation and parameters: a failure that is not retryable
  is re-thrown without any further invocation of the operation, where the retryable class
  is that of \<^verbatim>\<open>isRetryableError\<close> (a status that is present and not zero decides alone:
  429 or at least 500; otherwise the codes ECONNRESET, ETIMEDOUT and also ENOTFOUND);
  when all \<open>maxRetries + 1\<close> attempts fail the last error is re-thrown; and after the
  failure of attempt \<open>k\<close> (counted from 0) the executor sleeps
  \<open>floor(d + d * 0.25 * (random - 0.5))\<close> milliseconds with
  \<open>d = min(baseDelay * 2^k, maxDelay)\<close>, which for \<open>d \<ge> 0\<close> lies above \<open>0.875 d - 1\<close>
  and is at most \<open>1.125 d\<close>.
\<close>

theorem retry_policy:
  "(k \<le> maxRetries \<and> (\<forall>j < k. retryable_failure (fn j))
      \<and> fn k = Inl e \<and> \<not> isRetryableError e
     \<longrightarrow> retryWithBackoff fn random maxRetries b m
          = (Inl e, k + 1, map (\<lambda>j. waitTime b m j (random j)) [0 ..< k]))
   \<and> ((\<forall>j \<le> maxRetries. retryable_failure (fn j))
     \<longrightarrow> retryWithBackoff fn random maxRetries b m
          = (fn maxRetries, maxRetries + 1,
             map (\<lambda>j. waitTime b m j (random j)) [0 ..< maxRetries]))
   \<and> (0 \<le> b \<and> 0 \<le> m \<and> 0 \<le> r \<and> r < 1
     \<longrightarrow> (7/8) * min (b * 2 ^ k) m - 1 < real_of_int (waitTime b m k r)
         \<and> real_of_int (waitTime b m k r) \<le> (9/8) * min (b * 2 ^ k) m)
   \<and> isRetryableError (x\<lparr>err_status := None, err_code := Some ''ENOTFOUND''\<rparr>)
   \<and> isRetryableError (x\<lparr>err_status := Some 429\<rparr>)
   \<and> \<not> isRetryableError (x\<lparr>err_status := Some 404\<rparr>)"
proof -
  have a: "k \<le> maxRetries \<and> (\<forall>j < k. retryable_failure (fn j))
      \<and> fn k = Inl e \<and> \<not> isRetryableError e
     \<longrightarrow> retryWithBackoff fn random maxRetries b m
          = (Inl e, k + 1, map (\<lambda>j. waitTime b m j (random j)) [0 ..< k])"
  proof
    assume h: "k \<le> maxRetries \<and> (\<forall>j < k. retryable_failure (fn j))
      \<and> fn k = Inl e \<and> \<not> isRetryableError e"
    then have pre: "\<forall>j < k. retryable_failure (fn (0 + j))" and le: "k \<le> maxRetries"
      by simp_all
    have "retryWithBackoff fn random maxRetries b m
        = retry_loop fn random b m (maxRetries - k) k
            (map (\<lambda>j. waitTime b m j (random j)) [0 ..< k])"
      unfolding retryWithBackoff_def using retry_loop_skip [OF pre le, of random b m "[]"]
      by simp
    also from h have "\<dots> = (Inl e, k + 1, map (\<lambda>j. waitTime b m j (random j)) [0 ..< k])"
      by (cases "maxRetries - k") auto
    finally show "retryWithBackoff fn random maxRetries b m
          = (Inl e, k + 1, map (\<lambda>j. waitTime b m j (random j)) [0 ..< k])" .
  qed
  have b: "(\<forall>j \<le> maxRetries. retryable_failure (fn j))
     \<longrightarrow> retryWithBackoff fn random maxRetries b m
          = (fn maxRetries, maxRetries + 1,
             map (\<lambda>j. waitTime b m j (random j)) [0 ..< maxRetries])"
  proof
    assume "\<forall>j \<le> maxRetries. retryable_failure (fn j)"
    then have pre: "\<forall>j < maxRetries. retryable_failure (fn (0 + j))" by simp
    from retry_loop_skip [OF pre order_refl, of random b m "[]"]
    show "retryWithBackoff fn random maxRetries b m
          = (fn maxRetries, maxRetries + 1,
             map (\<lambda>j. waitTime b m j (random j)) [0 ..< maxRetries])"
      by (simp add: retryWithBackoff_def)
  qed
  have c: "0 \<le> b \<and> 0 \<le> m \<and> 0 \<le> r \<and> r < 1
     \<longrightarrow> (7/8) * min (b * 2 ^ k) m - 1 < real_of_int (waitTime b m k r)
         \<and> real_of_int (waitTime b m k r) \<le> (9/8) * min (b * 2 ^ k) m"
  proof
    assume h: "0 \<le> b \<and> 0 \<le> m \<and> 0 \<le> r \<and> r < 1"
    then have d: "0 \<le> backoff_delay b m k" by (simp add: backoff_delay_def)
    from h waitTime_bounds [OF d, of r]
    show "(7/8) * min (b * 2 ^ k) m - 1 < real_of_int (waitTime b m k r)
         \<and> real_of_int (waitTime b m k r) \<le> (9/8) * min (b * 2 ^ k) m"
      by (simp add: backoff_delay_def)
  qed
  have d: "isRetryableError (x\<lparr>err_status := None, err_code := Some ''ENOTFOUND''\<rparr>)"
    "isRetryableError (x\<lparr>err_status := Some 429\<rparr>)"
    "\<not> isRetryableError (x\<lparr>err_status := Some 404\<rparr>)"
    by (simp_all add: isRetryableError_def)
  from a b c d show ?thesis by blast
qed

theorem retry_policy_witness:
  "retryWithBackoff
     (\<lambda>k. if k = 0 then Inl \<lparr>err_message = ''busy'', err_status = Some 503, err_code = None\<rparr>
           else (Inl \<lparr>err_message = ''bad request'', err_status = Some 400, err_code = None\<rparr>
                   :: js_error + unit))
     (\<lambda>k. 1/2) 3 1000 60000
   = (Inl \<lparr>err_message = ''bad request'', err_status = Some 400, err_code = None\<rparr>, 2, [1000])
   \<and> retryWithBackoff
     (\<lambda>k. (Inl \<lparr>err_message = ''busy'', err_status = Some 503, err_code = None\<rparr>
             :: js_error + unit))
     (\<lambda>k. 1/2) 2 1000 60000
   = (Inl \<lparr>err_message = ''busy'', err_status = Some 503, err_code = None\<rparr>, 3, [1000, 2000])
   \<and> 874 < waitTime 1000 60000 0 0"
proof -
  let ?busy = "\<lparr>err_message = ''busy'', err_status = Some 503, err_code = None\<rparr>"
  let ?bad = "\<lparr>err_message = ''bad request'', err_status = Some 400, err_code = None\<rparr>"
  let ?fn = "\<lambda>k::nat. if k = 0 then Inl ?busy else (Inl ?bad :: js_error + unit)"
  let ?fn2 = "\<lambda>k::nat. (Inl ?busy :: js_error + unit)"
  let ?rnd = "\<lambda>k::nat. 1/2 :: real"
  have w: "waitTime 1000 60000 0 (1/2) = 1000" "waitTime 1000 60000 1 (1/2) = 2000"
    by (simp_all add: waitTime_def backoff_delay_def Let_def)
  have h1: "1 \<le> (3::nat) \<and> (\<forall>j < 1. retryable_failure (?fn j))
      \<and> ?fn 1 = Inl ?bad \<and> \<not> isRetryableError ?bad"
    by (simp add: retryable_failure_def isRetryableError_def)
  from retry_policy [where k = 1 and maxRetries = 3 and fn = ?fn and e = ?bad
      and random = ?rnd and b = 1000 and m = 60000, THEN conjunct1] h1
  have a: "retryWithBackoff ?fn ?rnd 3 1000 60000
      = (Inl ?bad, 1 + 1, map (\<lambda>j. waitTime 1000 60000 j (1/2)) [0 ..< 1])"
    by (rule mp)
  have h2: "\<forall>j \<le> 2. retryable_failure (?fn2 j)"
    by (simp add: retryable_failure_def isRetryableError_def)
  from retry_policy [where maxRetries = 2 and fn = ?fn2
      and random = ?rnd and b = 1000 and m = 60000, THEN conjunct2, THEN conjunct1] h2
  have b: "retryWithBackoff ?fn2 ?rnd 2 1000 60000
      = (?fn2 2, 2 + 1, map (\<lambda>j. waitTime 1000 60000 j (1/2)) [0 ..< 2])"
    by (rule mp)
  have h3: "(0::real) \<le> 1000 \<and> (0::real) \<le> 60000 \<and> (0::real) \<le> 0 \<and> (0::real) < 1"
    by simp
  from retry_policy [where b = 1000 and m = 60000 and r = 0 and k = 0,
      THEN conjunct2, THEN conjunct2, THEN conjunct1] h3
  have "(7/8) * min (1000 * 2 ^ 0) 60000 - 1 < real_of_int (waitTime 1000 60000 0 0)
         \<and> real_of_int (waitTime 1000 60000 0 0) \<le> (9/8) * min (1000 * 2 ^ 0) 60000"
    by (rule mp)
  then have c: "874 < waitTime 1000 60000 0 0" by simp
  have u: "[0 ..< 2] = [0, 1]" "[0 ..< 1] = [0]" by (simp_all add: upt_rec)
  from a b c w u show ?thesis by (simp add: numeral_2_eq_2)
qed

text \<open>
  C5 as the specification words it fails: a DNS failure (code ENOTFOUND, no status) is
  neither a 429, nor a status of 500 or more, nor a network reset or timeout, yet the
  operation is invoked a second time after a sleep instead of the error being re-thrown.
\<close>

theorem retry_enotfound_counterexample:
  "retryWithBackoff
     (\<lambda>k. if k = 0
           then Inl \<lparr>err_message = ''getaddrinfo ENOTFOUND'', err_status = None,
                     err_code = Some ''ENOTFOUND''\<rparr>
           else Inr ())
     (\<lambda>k. 1/2) 3 1000 60000
   = (Inr (), 2, [1000])"
  by (simp add: retryWithBackoff_def numeral_3_eq_3 isRetryableError_def waitTime_def
      backoff_delay_def Let_def)

section \<open>Claims about bounded concurrency\<close>

text \<open>
  C6, evaluated on the code. Two items with concurrency 2, the first taking 100 ms and
  the second 10 ms: the race ends when the second settles, \<^verbatim>\<open>splice(0, 1)\<close> removes the
  promise of the first, which is still pending, and the function resolves with slot 0
  empty. With the durations exchanged both slots are filled.
\<close>

theorem processWithConcurrency_drops_pending:
  "processWithConcurrency
     [\<lparr>duration = 100, outcome = Inr ''a''\<rparr>, \<lparr>duration = 10, outcome = Inr ''b''\<rparr>] 2
     = [None, Some (Fulfilled ''b'')]
   \<and> processWithConcurrency
     [\<lparr>duration = 10, outcome = Inr ''a''\<rparr>, \<lparr>duration = 100, outcome = Inr ''b''\<rparr>] 2
     = [Some (Fulfilled ''a''), Some (Fulfilled ''b'')]"
  by code_simp

section \<open>Claims about index()\<close>




end
